theory Spec2Isabelle
  imports Main
begin

section \<open>Strings and errors of the TypeScript source\<close>

text \<open>
  A JavaScript string is modelled as a \<^typ>\<open>string\<close> whose characters are read as
  code units below 256. \<open>String.prototype.trim\<close> removes white space and line
  terminators from both ends; in this range these are the code units
  9 to 13, 32 and 160.
\<close>

definition is_white_space :: "char \<Rightarrow> bool" where
  "is_white_space c \<longleftrightarrow> (of_char c :: nat) \<in> {9, 10, 11, 12, 13, 32, 160}"

definition trim :: "string \<Rightarrow> string" where
  "trim s = rev (dropWhile is_white_space (rev (dropWhile is_white_space s)))"

text \<open>The two line feeds of the template literal \<^verbatim>\<open>`${prev}\n\n${data.text}`\<close>.\<close>

definition blank_line :: string where
  "blank_line = [CHR 0x0A, CHR 0x0A]"

datatype js_error = Error (message: string)

text \<open>\<^verbatim>\<open>a || b\<close> on strings: the empty string is falsy.\<close>

definition or_else :: "string \<Rightarrow> string \<Rightarrow> string" where
  "or_else a b = (if a = [] then b else a)"

section \<open>The capture coordinator: \<^verbatim>\<open>src/components/JournalInput.tsx\<close>\<close>

text \<open>
  Everything the component does to the outside is recorded, in order of occurrence:
  notifications, console output, calls of the authentication context and of the remote
  functions, the \<^verbatim>\<open>onProcessed\<close> callback, the media devices, and a rejection of
  a promise that nobody handles.
\<close>

datatype effect =
    Toast_success string
  | Toast_error string
  | Console_error string js_error
  | Auth_getUser
  | Functions_invoke string "(string \<times> string) list"
  | OnProcessed
  | GetUserMedia
  | Recorder_start
  | Recorder_stop
  | Read_as_data_url string
  | Tracks_stop
  | Unhandled_rejection js_error

text \<open>
  The handlers are \<^verbatim>\<open>async\<close>: each runs until it has to wait and is resumed when
  the awaited answer arrives. A \<open>pending\<close> entry is one such suspended computation
  or registered callback, with what its closure holds.
\<close>

datatype pending =
    Await_getUserMedia
  | Await_onstop
  | Await_loadend
  | Await_transcribe
  | Await_getUser string
  | Await_process

record journal =
  content :: string
  processing :: bool
  isRecording :: bool
  isTranscribing :: bool
  mediaRecorder :: bool
  audioChunks :: "string list"
  pending :: "pending list"
  effects :: "effect list"

definition init_journal :: journal where
  "init_journal = \<lparr>content = [], processing = False, isRecording = False,
     isTranscribing = False, mediaRecorder = False, audioChunks = [],
     pending = [], effects = []\<rparr>"

definition emit :: "effect list \<Rightarrow> journal \<Rightarrow> journal" where
  "emit es st = st\<lparr>effects := effects st @ es\<rparr>"

definition suspend :: "pending \<Rightarrow> journal \<Rightarrow> journal" where
  "suspend p st = st\<lparr>pending := pending st @ [p]\<rparr>"

subsection \<open>Recording\<close>

text \<open>\<^verbatim>\<open>startRecording\<close> up to \<^verbatim>\<open>await navigator.mediaDevices.getUserMedia\<close>.\<close>

definition startRecording :: "journal \<Rightarrow> journal" where
  "startRecording st = suspend Await_getUserMedia (emit [GetUserMedia] st)"

text \<open>The rest of \<^verbatim>\<open>startRecording\<close>: the stream is granted, or the request throws.\<close>

fun startRecording_resume :: "js_error option \<Rightarrow> journal \<Rightarrow> journal" where
  "startRecording_resume None st =
     emit [Recorder_start, Toast_success ''Recording started'']
       (st\<lparr>mediaRecorder := True, audioChunks := [], isRecording := True\<rparr>)"
| "startRecording_resume (Some e) st =
     emit [Console_error ''Error starting recording:'' e,
           Toast_error ''Failed to start recording. Please check microphone permissions.''] st"

text \<open>\<^verbatim>\<open>mediaRecorder.ondataavailable\<close>: a chunk is kept when its size is positive.\<close>

definition ondataavailable :: "string \<Rightarrow> journal \<Rightarrow> journal" where
  "ondataavailable chunk st =
     (if length chunk > 0 then st\<lparr>audioChunks := audioChunks st @ [chunk]\<rparr> else st)"

definition stopRecording :: "journal \<Rightarrow> journal" where
  "stopRecording st =
     (if mediaRecorder st \<and> isRecording st
      then suspend Await_onstop (emit [Recorder_stop] (st\<lparr>isRecording := False\<rparr>))
      else st)"

subsection \<open>Transcription\<close>

text \<open>
  \<^verbatim>\<open>transcribeAudio\<close> sets the flag, starts the reader and registers
  \<^verbatim>\<open>reader.onloadend\<close> inside \<^verbatim>\<open>try\<close>; nothing there waits, so the
  \<^verbatim>\<open>finally\<close> block resets the flag in the same run, before the callback is called.
\<close>

definition transcribeAudio :: "string \<Rightarrow> journal \<Rightarrow> journal" where
  "transcribeAudio audioBlob st =
     (let st1 = st\<lparr>isTranscribing := True\<rparr>;
          st2 = suspend Await_loadend (emit [Read_as_data_url audioBlob] st1)
      in st2\<lparr>isTranscribing := False\<rparr>)"

text \<open>\<^verbatim>\<open>mediaRecorder.onstop\<close>.\<close>

definition onstop :: "journal \<Rightarrow> journal" where
  "onstop st = emit [Tracks_stop] (transcribeAudio (concat (audioChunks st)) st)"

text \<open>
  \<^verbatim>\<open>result.split(',')[1]\<close>: the text between the first and the second comma,
  \<^verbatim>\<open>undefined\<close> when there is no comma.
\<close>

definition split_comma_1 :: "string \<Rightarrow> string option" where
  "split_comma_1 s =
     (case dropWhile (\<lambda>c. c \<noteq> CHR '','') s of
        [] \<Rightarrow> None
      | c # rest \<Rightarrow> Some (takeWhile (\<lambda>c. c \<noteq> CHR '','') rest))"

text \<open>
  \<^verbatim>\<open>reader.onloadend\<close> up to \<^verbatim>\<open>await supabase.functions.invoke\<close>; an
  \<^verbatim>\<open>undefined\<close> property is left out of the body.
\<close>

definition onloadend :: "string \<Rightarrow> journal \<Rightarrow> journal" where
  "onloadend result st =
     (let base64Audio = split_comma_1 result;
          body = (case base64Audio of None \<Rightarrow> [] | Some a \<Rightarrow> [(''audio'', a)])
      in suspend Await_transcribe (emit [Functions_invoke ''transcribe-audio'' body] st))"

text \<open>
  The rest of \<^verbatim>\<open>reader.onloadend\<close>. The answer is \<open>Inl error\<close>, or \<open>Inr t\<close> with
  \<open>t\<close> the value of \<^verbatim>\<open>data?.text\<close> (\<open>None\<close> when it is missing). The
  \<^verbatim>\<open>throw\<close> happens in the callback, which no \<^verbatim>\<open>try\<close> encloses: the promise
  returned by the callback is rejected and nothing handles it.
\<close>

fun onloadend_resume :: "js_error + string option \<Rightarrow> journal \<Rightarrow> journal" where
  "onloadend_resume (Inl err) st = emit [Unhandled_rejection err] st"
| "onloadend_resume (Inr None) st = st"
| "onloadend_resume (Inr (Some text)) st =
     (if text \<noteq> []
      then emit [Toast_success ''Transcription complete!'']
             (st\<lparr>content := (if content st \<noteq> [] then content st @ blank_line @ text else text)\<rparr>)
      else st)"

subsection \<open>Submitting\<close>

text \<open>\<^verbatim>\<open>handleSubmit\<close> up to \<^verbatim>\<open>await supabase.auth.getUser()\<close>.\<close>

definition handleSubmit :: "journal \<Rightarrow> journal" where
  "handleSubmit st =
     (if trim (content st) = []
      then emit [Toast_error ''Please write something in your journal''] st
      else suspend (Await_getUser (content st)) (emit [Auth_getUser] (st\<lparr>processing := True\<rparr>)))"

text \<open>
  From the answer of \<^verbatim>\<open>getUser\<close> to \<^verbatim>\<open>await supabase.functions.invoke\<close>;
  \<open>journalContent\<close> is the \<^verbatim>\<open>content\<close> the closure captured at the click.
\<close>

fun handleSubmit_user :: "string \<Rightarrow> string option \<Rightarrow> journal \<Rightarrow> journal" where
  "handleSubmit_user journalContent None st =
     (emit [Toast_error ''Please sign in to continue''] st)\<lparr>processing := False\<rparr>"
| "handleSubmit_user journalContent (Some userId) st =
     suspend Await_process
       (emit [Functions_invoke ''process-journal''
                [(''journalContent'', journalContent), (''userId'', userId)]] st)"

text \<open>The rest of \<^verbatim>\<open>handleSubmit\<close>, with the \<^verbatim>\<open>error\<close> of the answer.\<close>

fun handleSubmit_resume :: "js_error option \<Rightarrow> journal \<Rightarrow> journal" where
  "handleSubmit_resume None st =
     (emit [Toast_success ''Journal processed! Your insights are ready.'', OnProcessed]
        (st\<lparr>content := []\<rparr>))\<lparr>processing := False\<rparr>"
| "handleSubmit_resume (Some err) st =
     (emit [Console_error ''Error processing journal:'' err,
            Toast_error (or_else (message err) ''Failed to process journal entry'')] st)
       \<lparr>processing := False\<rparr>"

subsection \<open>The rendered controls and the event loop\<close>

text \<open>The \<^verbatim>\<open>disabled\<close> attributes of the two buttons.\<close>

definition record_disabled :: "journal \<Rightarrow> bool" where
  "record_disabled st \<longleftrightarrow> isTranscribing st \<or> processing st"

definition submit_disabled :: "journal \<Rightarrow> bool" where
  "submit_disabled st \<longleftrightarrow> processing st \<or> isRecording st \<or> isTranscribing st"

datatype answer =
    Media "js_error option"
  | Stopped
  | Loaded string
  | Transcribed "js_error + string option"
  | User "string option"
  | Processed "js_error option"

datatype event =
    Click_record
  | Click_submit
  | Change string
  | Data_available string
  | Resolve nat answer

fun resume :: "pending \<Rightarrow> answer \<Rightarrow> (journal \<Rightarrow> journal) option" where
  "resume Await_getUserMedia (Media r) = Some (startRecording_resume r)"
| "resume Await_onstop Stopped = Some onstop"
| "resume Await_loadend (Loaded result) = Some (onloadend result)"
| "resume Await_transcribe (Transcribed r) = Some (onloadend_resume r)"
| "resume (Await_getUser c) (User u) = Some (handleSubmit_user c u)"
| "resume Await_process (Processed r) = Some (handleSubmit_resume r)"
| "resume _ _ = None"

text \<open>
  An answer resumes the suspended computation it belongs to, which leaves the list of
  the pending ones; an answer nothing waits for is ignored.
\<close>

definition resolve :: "nat \<Rightarrow> answer \<Rightarrow> journal \<Rightarrow> journal" where
  "resolve n a st =
     (if n < length (pending st)
      then (case resume (pending st ! n) a of
              None \<Rightarrow> st
            | Some k \<Rightarrow> k (st\<lparr>pending := take n (pending st) @ drop (Suc n) (pending st)\<rparr>))
      else st)"

fun fire :: "journal \<Rightarrow> event \<Rightarrow> journal" where
  "fire st Click_record =
     (if record_disabled st then st
      else if isRecording st then stopRecording st else startRecording st)"
| "fire st Click_submit = (if submit_disabled st then st else handleSubmit st)"
| "fire st (Change v) = st\<lparr>content := v\<rparr>"
| "fire st (Data_available chunk) = ondataavailable chunk st"
| "fire st (Resolve n a) = resolve n a st"

definition run :: "journal \<Rightarrow> event list \<Rightarrow> journal" where
  "run st evs = foldl fire st evs"

text \<open>What is in flight.\<close>

definition is_submit :: "pending \<Rightarrow> bool" where
  "is_submit p \<longleftrightarrow> (case p of Await_getUser c \<Rightarrow> True | Await_process \<Rightarrow> True | _ \<Rightarrow> False)"

definition is_transcription :: "pending \<Rightarrow> bool" where
  "is_transcription p \<longleftrightarrow>
     (case p of Await_onstop \<Rightarrow> True | Await_loadend \<Rightarrow> True | Await_transcribe \<Rightarrow> True
      | _ \<Rightarrow> False)"

definition submits_in_flight :: "journal \<Rightarrow> nat" where
  "submits_in_flight st = length (filter is_submit (pending st))"

definition transcription_in_flight :: "journal \<Rightarrow> bool" where
  "transcription_in_flight st \<longleftrightarrow> (\<exists>p \<in> set (pending st). is_transcription p)"

text \<open>
  One submit from the click to its end with nothing else happening in between: the
  answer of \<^verbatim>\<open>getUser\<close>, then the answer of the extraction service.
\<close>

definition submit :: "string option \<Rightarrow> js_error option \<Rightarrow> journal \<Rightarrow> journal" where
  "submit user r st =
     (let n = length (pending st)
      in resolve n (Processed r) (resolve n (User user) (handleSubmit st)))"

section \<open>The remote store\<close>

text \<open>
  The persistent store is an external collaborator; the component reaches it through the
  query builder only (\<^verbatim>\<open>supabase.from(table).select/update/delete\<close> with
  \<^verbatim>\<open>.eq\<close>, \<^verbatim>\<open>.order\<close>, \<^verbatim>\<open>.limit\<close>). A request is what such a chain
  denotes; the store below is the plain reading of it on tables of rows: the filters
  select the rows, and nothing but the filters does.
\<close>

datatype val = Null | Str string | Bool bool

type_synonym row = "(string \<times> val) list"

definition field :: "row \<Rightarrow> string \<Rightarrow> val" where
  "field r k = (case map_of r k of None \<Rightarrow> Null | Some v \<Rightarrow> v)"

fun set_field :: "string \<Rightarrow> val \<Rightarrow> row \<Rightarrow> row" where
  "set_field k v [] = [(k, v)]"
| "set_field k v ((k', v') # r) = (if k' = k then (k, v) # r else (k', v') # set_field k v r)"

definition assign :: "(string \<times> val) list \<Rightarrow> row \<Rightarrow> row" where
  "assign changes r = foldl (\<lambda>r (k, v). set_field k v r) r changes"

text \<open>JavaScript's truthiness, and a column read at the type its interface declares.\<close>

fun truthy :: "val \<Rightarrow> bool" where
  "truthy Null = False"
| "truthy (Bool b) = b"
| "truthy (Str s) = (s \<noteq> [])"

fun the_string :: "val \<Rightarrow> string" where
  "the_string (Str s) = s"
| "the_string _ = []"

datatype request =
    Select string "(string \<times> string) list" string bool "nat option"
  | Update string "(string \<times> val) list" "(string \<times> string) list"
  | Delete string "(string \<times> string) list"

type_synonym store = "string \<rightharpoonup> row list"

definition matches :: "(string \<times> string) list \<Rightarrow> row \<Rightarrow> bool" where
  "matches filters r = list_all (\<lambda>(column, v). field r column = Str v) filters"

text \<open>
  The order of two column values: \<^verbatim>\<open>false\<close> before \<^verbatim>\<open>true\<close>, strings by code
  units, and null after every value (so that it comes last ascending and first
  descending).
\<close>

fun string_le :: "string \<Rightarrow> string \<Rightarrow> bool" where
  "string_le [] t = True"
| "string_le (c # s) [] = False"
| "string_le (c # s) (d # t) =
     ((of_char c :: nat) < of_char d \<or> ((of_char c :: nat) = of_char d \<and> string_le s t))"

fun val_le :: "val \<Rightarrow> val \<Rightarrow> bool" where
  "val_le a Null = True"
| "val_le Null b = False"
| "val_le (Bool a) (Bool b) = (a \<longrightarrow> b)"
| "val_le (Bool a) (Str t) = True"
| "val_le (Str s) (Bool b) = False"
| "val_le (Str s) (Str t) = string_le s t"

fun insert_row :: "(row \<Rightarrow> row \<Rightarrow> bool) \<Rightarrow> row \<Rightarrow> row list \<Rightarrow> row list" where
  "insert_row le r [] = [r]"
| "insert_row le r (r' # rs) = (if le r r' then r # r' # rs else r' # insert_row le r rs)"

definition order_by :: "string \<Rightarrow> bool \<Rightarrow> row list \<Rightarrow> row list" where
  "order_by column ascending rs =
     foldr (insert_row (\<lambda>a b. if ascending then val_le (field a column) (field b column)
                               else val_le (field b column) (field a column))) rs []"

definition limit :: "nat option \<Rightarrow> row list \<Rightarrow> row list" where
  "limit n rs = (case n of None \<Rightarrow> rs | Some k \<Rightarrow> take k rs)"

fun table_of :: "request \<Rightarrow> string" where
  "table_of (Select table filters column ascending n) = table"
| "table_of (Update table changes filters) = table"
| "table_of (Delete table filters) = table"

text \<open>
  The \<^verbatim>\<open>data\<close> of an answer: the selected rows, ordered and cut at the limit; an
  update or a delete without \<^verbatim>\<open>select\<close> returns none. Then the store a request
  leaves behind.
\<close>

fun rows_of :: "request \<Rightarrow> store \<Rightarrow> row list option" where
  "rows_of (Select table filters column ascending n) db =
     map_option (\<lambda>rs. limit n (order_by column ascending (filter (matches filters) rs))) (db table)"
| "rows_of (Update table changes filters) db = None"
| "rows_of (Delete table filters) db = None"

fun store_after :: "request \<Rightarrow> store \<Rightarrow> store" where
  "store_after (Select table filters column ascending n) db = db"
| "store_after (Update table changes filters) db =
     (case db table of None \<Rightarrow> db
      | Some rs \<Rightarrow> db(table \<mapsto> map (\<lambda>r. if matches filters r then assign changes r else r) rs))"
| "store_after (Delete table filters) db =
     (case db table of None \<Rightarrow> db
      | Some rs \<Rightarrow> db(table \<mapsto> filter (\<lambda>r. \<not> matches filters r) rs))"

section \<open>The insight synchronizer: \<^verbatim>\<open>InsightsDisplay\<close>\<close>

text \<open>
  The component state holds the four panels as the store returned them (the interfaces
  \<^verbatim>\<open>Task\<close>, \<^verbatim>\<open>CalendarEvent\<close>, \<^verbatim>\<open>Note\<close> and \<^verbatim>\<open>HealthMention\<close> name the
  columns the component reads) and the three variables of the edit cursor.

  The handlers are \<^verbatim>\<open>async\<close>. \<^verbatim>\<open>toggleTask\<close> and the reload it starts are
  given step by step, each step running until the handler has to wait: the checkbox is
  enabled all the time, so clicks can fall between the steps. \<^verbatim>\<open>saveEdit\<close>,
  \<^verbatim>\<open>deleteItem\<close> and \<^verbatim>\<open>fetchData\<close> are also given as whole runs, from the
  event to the end of the reload with nothing in between.
\<close>

record insights =
  tasks :: "row list"
  events :: "row list"
  "notes" :: "row list"
  health :: "row list"
  editingId :: "string option"
  editingType :: "string option"
  editValue :: string

datatype io =
    GetUser
  | Query request
  | Toast string bool

text \<open>
  What the component reads of an answer \<^verbatim>\<open>{ data, error }\<close>: the rows, and
  whether \<^verbatim>\<open>error\<close> is set.
\<close>

record response =
  data :: "row list option"
  error :: bool

text \<open>
  Where a handler can wait: \<^verbatim>\<open>toggleTask\<close> for its update (it does not read the
  answer), \<^verbatim>\<open>fetchData\<close> for the user, and \<^verbatim>\<open>fetchData\<close> for the four
  answers of \<^verbatim>\<open>Promise.all\<close>. The store handles a request when it is sent; the
  entry holds the answer that is on its way.
\<close>

datatype waiting =
    Wait_update
  | Wait_user "string option"
  | Wait_all response response response response

text \<open>
  The world of the component: its state, the store, the signed-in user, the requests
  that fail (in the store or on the way; a request on an unknown table fails too),
  everything done so far, and the handlers that wait. \<open>Toast title d\<close> is
  \<^verbatim>\<open>toast({ title })\<close>, with \<^verbatim>\<open>variant: "destructive"\<close> when \<open>d\<close> holds.
\<close>

record world =
  ui :: insights
  db :: store
  session :: "string option"
  rejects :: "request \<Rightarrow> bool"
  trace :: "io list"
  waiting :: "waiting list"

definition respond :: "request \<Rightarrow> world \<Rightarrow> response" where
  "respond rq w =
     (if rejects w rq \<or> db w (table_of rq) = None then \<lparr>data = None, error = True\<rparr>
      else \<lparr>data = rows_of rq (db w), error = False\<rparr>)"

definition perform :: "request \<Rightarrow> world \<Rightarrow> world" where
  "perform rq w =
     w\<lparr>db := (if rejects w rq then db w else store_after rq (db w)),
       trace := trace w @ [Query rq]\<rparr>"

definition toast :: "string \<Rightarrow> bool \<Rightarrow> world \<Rightarrow> world" where
  "toast title destructive w = w\<lparr>trace := trace w @ [Toast title destructive]\<rparr>"

subsection \<open>Load\<close>

text \<open>
  \<^verbatim>\<open>if (tasksData.data) setTasks(tasksData.data)\<close> and its three siblings: a panel
  is replaced when its query returned rows, and kept when the query failed.
\<close>

definition setTasks :: "row list option \<Rightarrow> world \<Rightarrow> world" where
  "setTasks d w = (case d of None \<Rightarrow> w | Some rs \<Rightarrow> w\<lparr>ui := (ui w)\<lparr>tasks := rs\<rparr>\<rparr>)"

definition setEvents :: "row list option \<Rightarrow> world \<Rightarrow> world" where
  "setEvents d w = (case d of None \<Rightarrow> w | Some rs \<Rightarrow> w\<lparr>ui := (ui w)\<lparr>events := rs\<rparr>\<rparr>)"

definition setNotes :: "row list option \<Rightarrow> world \<Rightarrow> world" where
  "setNotes d w = (case d of None \<Rightarrow> w | Some rs \<Rightarrow> w\<lparr>ui := (ui w)\<lparr>notes := rs\<rparr>\<rparr>)"

definition setHealth :: "row list option \<Rightarrow> world \<Rightarrow> world" where
  "setHealth d w = (case d of None \<Rightarrow> w | Some rs \<Rightarrow> w\<lparr>ui := (ui w)\<lparr>health := rs\<rparr>\<rparr>)"

definition fetchData :: "world \<Rightarrow> world" where
  "fetchData w =
     (let w0 = w\<lparr>trace := trace w @ [GetUser]\<rparr>
      in case session w of
           None \<Rightarrow> w0
         | Some user_id \<Rightarrow>
             (let q1 = Select ''tasks'' [(''user_id'', user_id)] ''created_at'' False None;
                  q2 = Select ''calendar_events'' [(''user_id'', user_id)] ''event_date'' True None;
                  q3 = Select ''notes'' [(''user_id'', user_id)] ''created_at'' False (Some 10);
                  q4 = Select ''health_mentions'' [(''user_id'', user_id)] ''created_at'' False (Some 10);
                  tasksData = respond q1 w0; w1 = perform q1 w0;
                  eventsData = respond q2 w1; w2 = perform q2 w1;
                  notesData = respond q3 w2; w3 = perform q3 w2;
                  healthData = respond q4 w3; w4 = perform q4 w3
              in setHealth (data healthData) (setNotes (data notesData)
                   (setEvents (data eventsData) (setTasks (data tasksData) w4)))))"

text \<open>
  The same \<^verbatim>\<open>fetchData\<close> in its steps: up to \<^verbatim>\<open>await supabase.auth.getUser()\<close>,
  from the user to \<^verbatim>\<open>await Promise.all([...])\<close>, and from the four answers to the
  end.
\<close>

definition wait :: "waiting \<Rightarrow> world \<Rightarrow> world" where
  "wait p w = w\<lparr>waiting := waiting w @ [p]\<rparr>"

definition fetchData_call :: "world \<Rightarrow> world" where
  "fetchData_call w = wait (Wait_user (session w)) (w\<lparr>trace := trace w @ [GetUser]\<rparr>)"

fun fetchData_user :: "string option \<Rightarrow> world \<Rightarrow> world" where
  "fetchData_user None w = w"
| "fetchData_user (Some user_id) w =
     (let q1 = Select ''tasks'' [(''user_id'', user_id)] ''created_at'' False None;
          q2 = Select ''calendar_events'' [(''user_id'', user_id)] ''event_date'' True None;
          q3 = Select ''notes'' [(''user_id'', user_id)] ''created_at'' False (Some 10);
          q4 = Select ''health_mentions'' [(''user_id'', user_id)] ''created_at'' False (Some 10);
          tasksData = respond q1 w; w1 = perform q1 w;
          eventsData = respond q2 w1; w2 = perform q2 w1;
          notesData = respond q3 w2; w3 = perform q3 w2;
          healthData = respond q4 w3; w4 = perform q4 w3
      in wait (Wait_all tasksData eventsData notesData healthData) w4)"

definition fetchData_land :: "response \<Rightarrow> response \<Rightarrow> response \<Rightarrow> response \<Rightarrow> world \<Rightarrow> world" where
  "fetchData_land tasksData eventsData notesData healthData w =
     setHealth (data healthData) (setNotes (data notesData)
       (setEvents (data eventsData) (setTasks (data tasksData) w)))"

subsection \<open>Toggle, edit, delete\<close>

text \<open>
  \<^verbatim>\<open>toggleTask\<close> up to \<^verbatim>\<open>await supabase.from("tasks").update(...)\<close>, and
  the rest of it: \<^verbatim>\<open>fetchData()\<close>, called and not awaited.
\<close>

definition toggleTask :: "string \<Rightarrow> bool \<Rightarrow> world \<Rightarrow> world" where
  "toggleTask taskId completed w =
     wait Wait_update
       (perform (Update ''tasks'' [(''completed'', Bool (\<not> completed))] [(''id'', taskId)]) w)"

definition toggleTask_resume :: "world \<Rightarrow> world" where
  "toggleTask_resume w = fetchData_call w"

definition startEdit :: "string \<Rightarrow> string \<Rightarrow> string \<Rightarrow> world \<Rightarrow> world" where
  "startEdit i type currentValue w =
     w\<lparr>ui := (ui w)\<lparr>editingId := Some i, editingType := Some type, editValue := currentValue\<rparr>\<rparr>"

definition cancelEdit :: "world \<Rightarrow> world" where
  "cancelEdit w = w\<lparr>ui := (ui w)\<lparr>editingId := None, editingType := None, editValue := []\<rparr>\<rparr>"

text \<open>
  The branches of \<^verbatim>\<open>saveEdit\<close> on the kind \<open>t\<close>, in the order of the source:
  the request each one sends for the record \<open>i\<close> and the edit buffer \<open>v\<close>. A kind
  that is none of the four sends nothing, and \<^verbatim>\<open>error\<close> stays undefined.
\<close>

definition saveEdit_request :: "string \<Rightarrow> string \<Rightarrow> string \<Rightarrow> request option" where
  "saveEdit_request t i v =
     (if t = ''tasks'' then Some (Update ''tasks'' [(''title'', Str v)] [(''id'', i)])
      else if t = ''calendar_events'' then Some (Update ''calendar_events'' [(''title'', Str v)] [(''id'', i)])
      else if t = ''notes'' then Some (Update ''notes'' [(''content'', Str v)] [(''id'', i)])
      else if t = ''health_mentions'' then Some (Update ''health_mentions'' [(''content'', Str v)] [(''id'', i)])
      else None)"

text \<open>
  In \<^verbatim>\<open>!editingId || !editingType\<close>, null and the empty string are falsy. A failed
  request and a thrown exception both end in the \<^verbatim>\<open>catch\<close> block.
\<close>

definition saveEdit :: "world \<Rightarrow> world" where
  "saveEdit w =
     (case editingId (ui w) of
        None \<Rightarrow> w
      | Some i \<Rightarrow>
         (case editingType (ui w) of
            None \<Rightarrow> w
          | Some t \<Rightarrow>
             if i = [] \<or> t = [] then w
             else
               (let rq = saveEdit_request t i (editValue (ui w));
                    failed = (case rq of None \<Rightarrow> False | Some q \<Rightarrow> error (respond q w));
                    w1 = (case rq of None \<Rightarrow> w | Some q \<Rightarrow> perform q w)
                in if failed then toast ''Failed to update'' True w1
                   else fetchData (cancelEdit (toast ''Updated successfully'' False w1)))))"

text \<open>The branches of \<^verbatim>\<open>deleteItem\<close> on the kind, likewise.\<close>

definition deleteItem_request :: "string \<Rightarrow> string \<Rightarrow> request option" where
  "deleteItem_request t i =
     (if t = ''tasks'' then Some (Delete ''tasks'' [(''id'', i)])
      else if t = ''calendar_events'' then Some (Delete ''calendar_events'' [(''id'', i)])
      else if t = ''notes'' then Some (Delete ''notes'' [(''id'', i)])
      else if t = ''health_mentions'' then Some (Delete ''health_mentions'' [(''id'', i)])
      else None)"

definition deleteItem :: "string \<Rightarrow> string \<Rightarrow> world \<Rightarrow> world" where
  "deleteItem i type w =
     (let rq = deleteItem_request type i;
          failed = (case rq of None \<Rightarrow> False | Some q \<Rightarrow> error (respond q w));
          w1 = (case rq of None \<Rightarrow> w | Some q \<Rightarrow> perform q w)
      in if failed then toast ''Failed to delete'' True w1
         else fetchData (toast ''Deleted successfully'' False w1))"

text \<open>
  The checkbox of the task \<open>i\<close> in the tasks panel:
  \<^verbatim>\<open>onCheckedChange={() => toggleTask(task.id, task.completed)}\<close>.
\<close>

definition click_checkbox :: "string \<Rightarrow> world \<Rightarrow> world" where
  "click_checkbox i w =
     (case find (\<lambda>task. field task ''id'' = Str i) (tasks (ui w)) of
        None \<Rightarrow> w
      | Some task \<Rightarrow> toggleTask (the_string (field task ''id'')) (truthy (field task ''completed'')) w)"

subsection \<open>The rendered controls and the event loop\<close>

text \<open>
  The four panels by the kind of their rows, and the column that \<^verbatim>\<open>startEdit\<close> is
  given as the current value: \<^verbatim>\<open>title\<close> for tasks and events, \<^verbatim>\<open>content\<close> for
  notes and health mentions.
\<close>

definition panel :: "string \<Rightarrow> insights \<Rightarrow> row list" where
  "panel k u =
     (if k = ''tasks'' then tasks u
      else if k = ''calendar_events'' then events u
      else if k = ''notes'' then notes u
      else if k = ''health_mentions'' then health u
      else [])"

definition text_column :: "string \<Rightarrow> string" where
  "text_column k = (if k = ''tasks'' \<or> k = ''calendar_events'' then ''title'' else ''content'')"

definition shown :: "string \<Rightarrow> string \<Rightarrow> world \<Rightarrow> row option" where
  "shown k i w = find (\<lambda>r. field r ''id'' = Str i) (panel k (ui w))"

text \<open>
  The edit and delete buttons of the row \<open>i\<close> in the panel \<open>k\<close>, rendered when
  \<^verbatim>\<open>editingId !== row.id\<close>; the save and cancel buttons and the input, rendered in
  the row with \<^verbatim>\<open>editingId === row.id && editingType === kind\<close>.
\<close>

definition click_edit :: "string \<Rightarrow> string \<Rightarrow> world \<Rightarrow> world" where
  "click_edit k i w =
     (case shown k i w of
        None \<Rightarrow> w
      | Some r \<Rightarrow>
          if editingId (ui w) = Some i then w
          else startEdit (the_string (field r ''id'')) k (the_string (field r (text_column k))) w)"

definition click_delete :: "string \<Rightarrow> string \<Rightarrow> world \<Rightarrow> world" where
  "click_delete k i w =
     (case shown k i w of
        None \<Rightarrow> w
      | Some r \<Rightarrow>
          if editingId (ui w) = Some i then w
          else deleteItem (the_string (field r ''id'')) k w)"

definition editing_shown :: "world \<Rightarrow> bool" where
  "editing_shown w \<longleftrightarrow>
     (case editingId (ui w) of
        None \<Rightarrow> False
      | Some i \<Rightarrow> (case editingType (ui w) of None \<Rightarrow> False | Some k \<Rightarrow> shown k i w \<noteq> None))"

definition click_save :: "world \<Rightarrow> world" where
  "click_save w = (if editing_shown w then saveEdit w else w)"

definition click_cancel :: "world \<Rightarrow> world" where
  "click_cancel w = (if editing_shown w then cancelEdit w else w)"

definition change_input :: "string \<Rightarrow> world \<Rightarrow> world" where
  "change_input v w = (if editing_shown w then w\<lparr>ui := (ui w)\<lparr>editValue := v\<rparr>\<rparr> else w)"

text \<open>
  An answer arrives: the handler that waits for it goes on and leaves the list.
\<close>

fun go_on :: "waiting \<Rightarrow> world \<Rightarrow> world" where
  "go_on Wait_update w = toggleTask_resume w"
| "go_on (Wait_user user) w = fetchData_user user w"
| "go_on (Wait_all tasksData eventsData notesData healthData) w =
     fetchData_land tasksData eventsData notesData healthData w"

definition deliver :: "nat \<Rightarrow> world \<Rightarrow> world" where
  "deliver n w =
     (if n < length (waiting w)
      then go_on (waiting w ! n) (w\<lparr>waiting := take n (waiting w) @ drop (Suc n) (waiting w)\<rparr>)
      else w)"

text \<open>
  What can happen on the page: the effect runs \<^verbatim>\<open>fetchData()\<close> (on mount and when
  \<^verbatim>\<open>refreshTrigger\<close> changes), the user clicks or types, an answer arrives.
\<close>

datatype action =
    Load
  | Check string
  | Edit string string
  | Input string
  | Save
  | Cancel
  | Remove string string
  | Deliver nat

fun act :: "world \<Rightarrow> action \<Rightarrow> world" where
  "act w Load = fetchData_call w"
| "act w (Check i) = click_checkbox i w"
| "act w (Edit k i) = click_edit k i w"
| "act w (Input v) = change_input v w"
| "act w Save = click_save w"
| "act w Cancel = click_cancel w"
| "act w (Remove k i) = click_delete k i w"
| "act w (Deliver n) = deliver n w"

definition browse :: "world \<Rightarrow> action list \<Rightarrow> world" where
  "browse w acts = foldl act w acts"

text \<open>
  The page as the component mounts: the initial values of its \<^verbatim>\<open>useState\<close> calls,
  nothing done and nothing waiting.
\<close>

definition opened :: "store \<Rightarrow> string option \<Rightarrow> (request \<Rightarrow> bool) \<Rightarrow> world" where
  "opened d user failing =
     \<lparr>ui = \<lparr>tasks = [], events = [], notes = [], health = [],
             editingId = None, editingType = None, editValue = []\<rparr>,
      db = d, session = user, rejects = failing, trace = [], waiting = []\<rparr>"

text \<open>
  One toggle from the click to the end of its reload, with nothing in between: the
  answer to the update, the user, and the four answers.
\<close>

definition toggle_and_reload :: "string \<Rightarrow> world \<Rightarrow> world" where
  "toggle_and_reload i w =
     (let n = length (waiting w) in deliver n (deliver n (deliver n (click_checkbox i w))))"

subsection \<open>Observations\<close>

text \<open>
  The requests of a trace that change the store, and the edit cursor that the three
  state variables stand for.
\<close>

fun mutations :: "io list \<Rightarrow> request list" where
  "mutations [] = []"
| "mutations (Query (Update table changes filters) # xs) = Update table changes filters # mutations xs"
| "mutations (Query (Delete table filters) # xs) = Delete table filters # mutations xs"
| "mutations (x # xs) = mutations xs"

definition cursor :: "insights \<Rightarrow> (string \<times> string \<times> string) option" where
  "cursor u =
     (case editingId u of
        None \<Rightarrow> None
      | Some i \<Rightarrow> (case editingType u of None \<Rightarrow> None | Some t \<Rightarrow> Some (t, i, editValue u)))"

text \<open>One full reload by the user \<open>u\<close>: the authentication context, then the four queries.\<close>

definition reload :: "string \<Rightarrow> io list" where
  "reload u =
     [GetUser,
      Query (Select ''tasks'' [(''user_id'', u)] ''created_at'' False None),
      Query (Select ''calendar_events'' [(''user_id'', u)] ''event_date'' True None),
      Query (Select ''notes'' [(''user_id'', u)] ''created_at'' False (Some 10)),
      Query (Select ''health_mentions'' [(''user_id'', u)] ''created_at'' False (Some 10))]"

text \<open>
  The rows of the tasks table after \<^verbatim>\<open>update({ completed: b }).eq("id", i)\<close>.
\<close>

definition flip :: "string \<Rightarrow> bool \<Rightarrow> row list \<Rightarrow> row list" where
  "flip i b rs =
     map (\<lambda>r. if field r ''id'' = Str i then set_field ''completed'' (Bool b) r else r) rs"

text \<open>
  The guard on submitting, as a property of a state: at most one submit is under way,
  and while one is, \<^verbatim>\<open>processing\<close> is set.
\<close>

definition guarded :: "journal \<Rightarrow> bool" where
  "guarded st \<longleftrightarrow> submits_in_flight st \<le> 1 \<and> (submits_in_flight st = 1 \<longrightarrow> processing st)"

subsection \<open>Ownership\<close>

text \<open>
  The rows of a table that are outside the scope of the user \<open>user\<close>: those of another
  owner, and every row when nobody is signed in.
\<close>

definition others :: "string option \<Rightarrow> row list \<Rightarrow> row list" where
  "others user rs =
     filter (\<lambda>r. case user of None \<Rightarrow> True | Some u \<Rightarrow> field r ''user_id'' \<noteq> Str u) rs"

text \<open>
  The data model's invariant on identities, as far as it is needed: in a table, rows
  with the same id have the same owner (an id names one record).
\<close>

definition owner_by_id :: "store \<Rightarrow> bool" where
  "owner_by_id d \<longleftrightarrow>
     (\<forall>k rs. d k = Some rs \<longrightarrow>
        (\<forall>r \<in> set rs. \<forall>r' \<in> set rs.
           field r ''id'' = field r' ''id'' \<longrightarrow> field r ''user_id'' = field r' ''user_id''))"

text \<open>
  What the page keeps true of itself. The record \<open>i\<close> of the kind \<open>k\<close> is the user's
  own when every row of the table with that id belongs to the user. The rows of the
  panels, the rows of the answers on their way and the edit cursor name the user's own
  records only.
\<close>

definition own_id :: "string option \<Rightarrow> store \<Rightarrow> string \<Rightarrow> string \<Rightarrow> bool" where
  "own_id user d k i \<longleftrightarrow>
     (\<exists>u. user = Some u \<and>
        (\<forall>rs. d k = Some rs \<longrightarrow> (\<forall>r \<in> set rs. field r ''id'' = Str i \<longrightarrow> field r ''user_id'' = Str u)))"

definition rows_own :: "string option \<Rightarrow> store \<Rightarrow> string \<Rightarrow> row list \<Rightarrow> bool" where
  "rows_own user d k ps \<longleftrightarrow> (\<forall>p \<in> set ps. \<forall>i. field p ''id'' = Str i \<longrightarrow> own_id user d k i)"

definition answer_own :: "string option \<Rightarrow> store \<Rightarrow> string \<Rightarrow> response \<Rightarrow> bool" where
  "answer_own user d k a \<longleftrightarrow> (case data a of None \<Rightarrow> True | Some ps \<Rightarrow> rows_own user d k ps)"

fun waiting_own :: "string option \<Rightarrow> store \<Rightarrow> waiting \<Rightarrow> bool" where
  "waiting_own user d Wait_update = True"
| "waiting_own user d (Wait_user v) = (v = user)"
| "waiting_own user d (Wait_all a b c e) =
     (answer_own user d ''tasks'' a \<and> answer_own user d ''calendar_events'' b \<and>
      answer_own user d ''notes'' c \<and> answer_own user d ''health_mentions'' e)"

definition page_inv :: "string option \<Rightarrow> world \<Rightarrow> bool" where
  "page_inv user w \<longleftrightarrow>
     session w = user \<and> owner_by_id (db w) \<and>
     rows_own user (db w) ''tasks'' (tasks (ui w)) \<and>
     rows_own user (db w) ''calendar_events'' (events (ui w)) \<and>
     rows_own user (db w) ''notes'' (notes (ui w)) \<and>
     rows_own user (db w) ''health_mentions'' (health (ui w)) \<and>
     (\<forall>i k. editingId (ui w) = Some i \<longrightarrow> editingType (ui w) = Some k \<longrightarrow> own_id user (db w) k i) \<and>
     (\<forall>p \<in> set (waiting w). waiting_own user (db w) p)"

text \<open>
  A store whose rows all stem, with their id and owner, from rows of another; and a
  request that changes or deletes nothing but the user's own record.
\<close>

definition narrows :: "store \<Rightarrow> store \<Rightarrow> bool" where
  "narrows d' d \<longleftrightarrow>
     (\<forall>k rs'. d' k = Some rs' \<longrightarrow>
        (\<exists>rs. d k = Some rs \<and>
           (\<forall>r' \<in> set rs'. \<exists>r \<in> set rs.
              field r ''id'' = field r' ''id'' \<and> field r ''user_id'' = field r' ''user_id'')))"

fun mutates_own :: "string option \<Rightarrow> store \<Rightarrow> request \<Rightarrow> bool" where
  "mutates_own user d (Select table filters column ascending n) = True"
| "mutates_own user d (Update table changes filters) =
     (\<exists>c v i. changes = [(c, v)] \<and> c \<noteq> ''id'' \<and> c \<noteq> ''user_id'' \<and>
        filters = [(''id'', i)] \<and> own_id user d table i)"
| "mutates_own user d (Delete table filters) =
     (\<exists>i. filters = [(''id'', i)] \<and> own_id user d table i)"

subsection \<open>A store with two users\<close>

definition task_row :: "string \<Rightarrow> string \<Rightarrow> bool \<Rightarrow> row" where
  "task_row i owner c =
     [(''id'', Str i), (''user_id'', Str owner), (''created_at'', Str ''2025-01-01T09:00:00Z''),
      (''title'', Str ''Finish the project report''), (''completed'', Bool c),
      (''priority'', Str ''high'')]"

definition note_row :: "string \<Rightarrow> string \<Rightarrow> string \<Rightarrow> row" where
  "note_row i owner c =
     [(''id'', Str i), (''user_id'', Str owner), (''created_at'', Str ''2025-01-01T09:00:00Z''),
      (''content'', Str c)]"

definition example_store :: store where
  "example_store =
     [''tasks'' \<mapsto> [task_row ''t1'' ''alice'' False, task_row ''t2'' ''bob'' False],
      ''calendar_events'' \<mapsto> [],
      ''notes'' \<mapsto> [note_row ''n1'' ''alice'' ''Feeling energized''],
      ''health_mentions'' \<mapsto> []]"

text \<open>Alice is signed in, her panels are loaded, and the store fails no request.\<close>

definition example_world :: world where
  "example_world =
     \<lparr>ui = \<lparr>tasks = [task_row ''t1'' ''alice'' False], events = [],
             notes = [note_row ''n1'' ''alice'' ''Feeling energized''], health = [],
             editingId = None, editingType = None, editValue = []\<rparr>,
      db = example_store, session = Some ''alice'', rejects = (\<lambda>rq. False), trace = [],
      waiting = []\<rparr>"

text \<open>The same world with a store that fails every request.\<close>

definition offline_world :: world where
  "offline_world = example_world\<lparr>rejects := (\<lambda>rq. True)\<rparr>"

section \<open>Properties of the capture coordinator\<close>

lemma journal_simps [simp]:
  "pending (emit es st) = pending st" "processing (emit es st) = processing st"
  "isRecording (emit es st) = isRecording st" "isTranscribing (emit es st) = isTranscribing st"
  "content (emit es st) = content st" "effects (emit es st) = effects st @ es"
  "pending (suspend p st) = pending st @ [p]" "processing (suspend p st) = processing st"
  "isRecording (suspend p st) = isRecording st" "isTranscribing (suspend p st) = isTranscribing st"
  "content (suspend p st) = content st" "effects (suspend p st) = effects st"
  by (simp_all add: emit_def suspend_def)

lemma trim_white:
  assumes "\<forall>c \<in> set s. is_white_space c"
  shows "trim s = []"
proof -
  from assms have h: "dropWhile is_white_space s = []" by simp
  show ?thesis unfolding trim_def h by simp
qed

lemma trim_Nil_iff: "trim s = [] \<longleftrightarrow> (\<forall>c \<in> set s. is_white_space c)"
proof
  assume "trim s = []"
  then have "\<forall>c \<in> set (dropWhile is_white_space s). is_white_space c"
    by (simp add: trim_def)
  then have "dropWhile is_white_space s = []"
    by (metis dropWhile_eq_Nil_conv dropWhile_idem)
  then show "\<forall>c \<in> set s. is_white_space c" by simp
qed (rule trim_white)

lemma resolve_nothing_pending: "length (pending st) \<le> n \<Longrightarrow> resolve n a st = st"
  by (simp add: resolve_def)

lemma resolve_last:
  "resume p a = Some k \<Longrightarrow> resolve (length (pending st)) a (suspend p st) = k st"
  by (simp add: resolve_def suspend_def)

lemma submit_blank:
  "trim (content st) = [] \<Longrightarrow>
   submit user r st = emit [Toast_error ''Please write something in your journal''] st"
  by (simp add: submit_def handleSubmit_def resolve_nothing_pending)

lemma submit_signed_out:
  "trim (content st) \<noteq> [] \<Longrightarrow>
   submit None r st =
     (emit [Auth_getUser, Toast_error ''Please sign in to continue''] st)\<lparr>processing := False\<rparr>"
  by (simp add: submit_def handleSubmit_def resolve_def suspend_def emit_def)

lemma submit_sent:
  "trim (content st) \<noteq> [] \<Longrightarrow>
   submit (Some u) r st =
     handleSubmit_resume r
       (emit [Auth_getUser,
              Functions_invoke ''process-journal'' [(''journalContent'', content st), (''userId'', u)]]
          (st\<lparr>processing := True\<rparr>))"
  by (simp add: submit_def handleSubmit_def resolve_def suspend_def emit_def)

text \<open>
  Claim C6. A submit whose buffer is empty or holds white space only ends at the check
  of \<^verbatim>\<open>content.trim()\<close>: whatever the authentication context and the extraction
  service would answer, the only thing done is the notification ``Please write
  something in your journal''. Neither \<^verbatim>\<open>getUser\<close> nor the extraction service is called,
  and the state is otherwise as before.
\<close>

theorem blank_submit_rejected:
  assumes "\<forall>c \<in> set (content st). is_white_space c"
  shows "submit user r st = emit [Toast_error ''Please write something in your journal''] st"
  using assms by (simp add: submit_blank trim_white)

theorem blank_submit_rejected_witness:
  "submit (Some ''alice'') None (init_journal\<lparr>content := ''   ''\<rparr>) =
     init_journal\<lparr>content := ''   '',
                   effects := [Toast_error ''Please write something in your journal'']\<rparr> \<and>
   submit (Some ''alice'') None init_journal =
     init_journal\<lparr>effects := [Toast_error ''Please write something in your journal'']\<rparr>"
  using blank_submit_rejected [of "init_journal\<lparr>content := ''   ''\<rparr>" "Some ''alice''" None]
    blank_submit_rejected [of init_journal "Some ''alice''" None]
  by (simp add: is_white_space_def init_journal_def emit_def)

text \<open>
  Claim C4. A submit that reaches the extraction service (the buffer is not blank and a
  user is signed in) leaves the buffer empty when the service succeeds, and leaves it
  exactly as it was when the service fails. It is also left as it was when no user is
  signed in and the service is never reached.
\<close>

theorem submit_clears_or_keeps_content:
  assumes "trim (content st) \<noteq> []"
  shows "content (submit (Some u) None st) = [] \<and>
         content (submit (Some u) (Some e) st) = content st \<and>
         content (submit None r st) = content st"
  using assms by (simp add: submit_sent submit_signed_out)

theorem submit_clears_or_keeps_content_witness:
  "content (submit (Some ''alice'') None (init_journal\<lparr>content := ''Buy milk and call mom''\<rparr>)) = [] \<and>
   content (submit (Some ''alice'') (Some (Error ''timeout''))
              (init_journal\<lparr>content := ''Buy milk and call mom''\<rparr>)) = ''Buy milk and call mom''"
  using submit_clears_or_keeps_content
          [of "init_journal\<lparr>content := ''Buy milk and call mom''\<rparr>" "''alice''" "Error ''timeout''" None]
  by (simp add: trim_def is_white_space_def)

text \<open>
  Claim C5, as the code has it. A successful transcription that returns a non-empty
  text appends it: to a non-empty buffer after two line feeds, and an empty buffer
  becomes the text. An empty or missing text passes the test \<^verbatim>\<open>if (data?.text)\<close>
  by, and the buffer stays as it is.
\<close>

theorem transcription_appends_text:
  "(text \<noteq> [] \<longrightarrow>
      content (onloadend_resume (Inr (Some text)) st) =
        (if content st = [] then text else content st @ [CHR 0x0A, CHR 0x0A] @ text)) \<and>
   content (onloadend_resume (Inr (Some [])) st) = content st \<and>
   content (onloadend_resume (Inr None) st) = content st"
  by (simp add: blank_line_def)

theorem transcription_appends_text_witness:
  "content (onloadend_resume (Inr (Some ''B'')) (init_journal\<lparr>content := ''A''\<rparr>)) =
     [CHR ''A'', CHR 0x0A, CHR 0x0A, CHR ''B''] \<and>
   content (onloadend_resume (Inr (Some ''B'')) init_journal) = ''B''"
  using transcription_appends_text [of "''B''" "init_journal\<lparr>content := ''A''\<rparr>"]
    transcription_appends_text [of "''B''" init_journal]
  by (simp add: init_journal_def)

text \<open>
  The claim as stated fails for the empty text: with \<open>A\<close> in the buffer the result is
  \<open>A\<close>, not \<open>A\<close> followed by two line feeds.
\<close>

theorem empty_transcription_keeps_content:
  "content (onloadend_resume (Inr (Some [])) (init_journal\<lparr>content := ''A''\<rparr>)) = ''A'' \<and>
   content (onloadend_resume (Inr (Some [])) (init_journal\<lparr>content := ''A''\<rparr>))
     \<noteq> ''A'' @ [CHR 0x0A, CHR 0x0A] @ []"
  by simp

subsection \<open>A failed transcription\<close>

text \<open>
  Whatever waits for the transcription service, its error ends in a rejection that
  nothing handles: no notification, no change of the buffer or of the flags.
\<close>

lemma transcription_error_unhandled:
  assumes "n < length (pending st)" "pending st ! n = Await_transcribe"
  shows "effects (resolve n (Transcribed (Inl e)) st) = effects st @ [Unhandled_rejection e]"
    and "content (resolve n (Transcribed (Inl e)) st) = content st"
    and "isTranscribing (resolve n (Transcribed (Inl e)) st) = isTranscribing st"
  using assms by (simp_all add: resolve_def emit_def)

lemmas run_simps =
  run_def init_journal_def record_disabled_def submit_disabled_def startRecording_def
  stopRecording_def resolve_def emit_def suspend_def ondataavailable_def onstop_def
  transcribeAudio_def onloadend_def split_comma_1_def handleSubmit_def trim_def
  is_white_space_def Let_def

text \<open>
  Claim C2, at a failing input. One recording is made and stopped, the reader delivers
  its data URL, and the transcription service answers with an error. The claim has a
  user-visible error surfaced; the run surfaces none: after ``Recording started'' the
  only further effects are the device calls, the request, and the unhandled rejection.
  The buffer is unchanged and \<^verbatim>\<open>isTranscribing\<close> is false, as the claim says.
\<close>

theorem transcription_error_not_surfaced:
  "run init_journal
     [Click_record, Resolve 0 (Media None), Data_available ''x'', Click_record,
      Resolve 0 Stopped, Resolve 0 (Loaded ''data:audio/webm;base64,eA==''),
      Resolve 0 (Transcribed (Inl (Error ''boom'')))] =
   \<lparr>content = [], processing = False, isRecording = False, isTranscribing = False,
    mediaRecorder = True, audioChunks = [''x''], pending = [],
    effects =
      [GetUserMedia, Recorder_start, Toast_success ''Recording started'', Recorder_stop,
       Read_as_data_url ''x'', Tracks_stop,
       Functions_invoke ''transcribe-audio'' [(''audio'', ''eA=='')],
       Unhandled_rejection (Error ''boom'')]\<rparr>"
  by (simp add: run_simps)

text \<open>
  Claim C3, at a failing input. After a recording is stopped and the reader has
  delivered, the request to the transcription service is in flight, and the submit
  button is enabled, because \<^verbatim>\<open>isTranscribing\<close> was reset before the request was
  sent. A click then sends the buffer to the extraction service while the
  transcription is still in flight.
\<close>

theorem submit_enabled_during_transcription:
  "transcription_in_flight
     (run init_journal
        [Change ''hello'', Click_record, Resolve 0 (Media None), Data_available ''x'',
         Click_record, Resolve 0 Stopped, Resolve 0 (Loaded ''data:audio/webm;base64,eA=='')]) \<and>
   \<not> submit_disabled
     (run init_journal
        [Change ''hello'', Click_record, Resolve 0 (Media None), Data_available ''x'',
         Click_record, Resolve 0 Stopped, Resolve 0 (Loaded ''data:audio/webm;base64,eA=='')]) \<and>
   pending
     (run init_journal
        [Change ''hello'', Click_record, Resolve 0 (Media None), Data_available ''x'',
         Click_record, Resolve 0 Stopped, Resolve 0 (Loaded ''data:audio/webm;base64,eA==''),
         Click_submit, Resolve 1 (User (Some ''alice''))]) =
     [Await_transcribe, Await_process]"
  by (simp add: run_simps transcription_in_flight_def is_transcription_def)

subsection \<open>The part of the guard that holds\<close>

text \<open>
  While the recorder runs and while a submit is under way the button is disabled, and
  in every run of the component at most one submit is in flight.
\<close>

lemma recording_disables_submit: "isRecording st \<Longrightarrow> submit_disabled st"
  by (simp add: submit_disabled_def)

lemma filter_remove_nth:
  assumes "n < length xs"
  shows "length (filter P (take n xs @ drop (Suc n) xs)) =
         length (filter P xs) - (if P (xs ! n) then 1 else 0)"
proof -
  have "length (filter P xs) = length (filter P (take n xs @ xs ! n # drop (Suc n) xs))"
    using id_take_nth_drop [OF assms] by simp
  then show ?thesis by simp
qed

lemma is_submit_simps [simp]:
  "is_submit (Await_getUser c)" "is_submit Await_process"
  "\<not> is_submit Await_getUserMedia" "\<not> is_submit Await_onstop"
  "\<not> is_submit Await_loadend" "\<not> is_submit Await_transcribe"
  by (simp_all add: is_submit_def)

lemma guarded_resume:
  assumes "resume p a = Some k" and "n < length (pending st)" and "pending st ! n = p"
    and "guarded st"
  shows "guarded (k (st\<lparr>pending := take n (pending st) @ drop (Suc n) (pending st)\<rparr>))"
proof -
  let ?st = "st\<lparr>pending := take n (pending st) @ drop (Suc n) (pending st)\<rparr>"
  have count: "submits_in_flight ?st = submits_in_flight st - (if is_submit p then 1 else 0)"
    unfolding submits_in_flight_def
    using filter_remove_nth [OF assms(2), of is_submit] assms(3) by simp
  have pos: "0 < submits_in_flight st" if "is_submit p"
  proof -
    from assms(2,3) that have "p \<in> set (filter is_submit (pending st))" by auto
    then show ?thesis unfolding submits_in_flight_def by (rule length_pos_if_in_set)
  qed
  show ?thesis
  proof (cases p)
    case Await_getUserMedia
    with assms(1) obtain r where "a = Media r" "k = startRecording_resume r"
      by (cases a) auto
    with count assms(4) Await_getUserMedia show ?thesis
      by (cases r) (auto simp: guarded_def submits_in_flight_def)
  next
    case Await_onstop
    with assms(1) have "k = onstop" by (cases a) auto
    with count assms(4) Await_onstop show ?thesis
      by (auto simp: guarded_def submits_in_flight_def onstop_def transcribeAudio_def Let_def)
  next
    case Await_loadend
    with assms(1) obtain r where "k = onloadend r" by (cases a) auto
    with count assms(4) Await_loadend show ?thesis
      by (auto simp: guarded_def submits_in_flight_def onloadend_def Let_def)
  next
    case Await_transcribe
    with assms(1) obtain r where k: "k = onloadend_resume r" by (cases a) auto
    have "pending (onloadend_resume r s) = pending s \<and>
          processing (onloadend_resume r s) = processing s" for s
      by (cases "(r, s)" rule: onloadend_resume.cases) simp_all
    with k count assms(4) Await_transcribe show ?thesis
      by (auto simp: guarded_def submits_in_flight_def)
  next
    case (Await_getUser c)
    with assms(1) obtain u where k: "k = handleSubmit_user c u" by (cases a) auto
    from count assms(4) Await_getUser pos have "submits_in_flight ?st = 0" "processing st"
      by (auto simp: guarded_def)
    then show ?thesis
      unfolding k by (cases u) (auto simp: guarded_def submits_in_flight_def)
  next
    case Await_process
    with assms(1) obtain r where k: "k = handleSubmit_resume r" by (cases a) auto
    from count assms(4) Await_process have "submits_in_flight ?st = 0"
      by (auto simp: guarded_def)
    then show ?thesis
      unfolding k by (cases r) (auto simp: guarded_def submits_in_flight_def)
  qed
qed

lemma guarded_fire:
  assumes g: "guarded st"
  shows "guarded (fire st ev)"
proof (cases ev)
  case Click_record
  from g show ?thesis unfolding Click_record
    by (auto simp: guarded_def submits_in_flight_def startRecording_def stopRecording_def)
next
  case Click_submit
  show ?thesis
  proof (cases "submit_disabled st")
    case True
    with g show ?thesis unfolding Click_submit by simp
  next
    case False
    then have "\<not> processing st" by (simp add: submit_disabled_def)
    with g have "submits_in_flight st = 0" by (auto simp: guarded_def)
    with g False show ?thesis unfolding Click_submit
      by (simp add: guarded_def submits_in_flight_def handleSubmit_def)
  qed
next
  case (Change v)
  from g show ?thesis unfolding Change by (simp add: guarded_def submits_in_flight_def)
next
  case (Data_available chunk)
  from g show ?thesis unfolding Data_available
    by (simp add: guarded_def submits_in_flight_def ondataavailable_def)
next
  case (Resolve n a)
  show ?thesis
  proof (cases "n < length (pending st)")
    case True
    show ?thesis
    proof (cases "resume (pending st ! n) a")
      case None
      with True g show ?thesis unfolding Resolve by (simp add: resolve_def)
    next
      case (Some k)
      from guarded_resume [OF Some True refl g] True Some show ?thesis
        unfolding Resolve by (simp add: resolve_def)
    qed
  next
    case False
    with g show ?thesis unfolding Resolve by (simp add: resolve_def)
  qed
qed

lemma guarded_run: "guarded st \<Longrightarrow> guarded (run st evs)"
  unfolding run_def by (induction evs arbitrary: st) (simp_all add: guarded_fire)

lemma one_submit_in_flight:
  "submits_in_flight (run init_journal evs) \<le> 1 \<and>
   (submits_in_flight (run init_journal evs) = 1 \<longrightarrow> submit_disabled (run init_journal evs))"
proof -
  have "guarded init_journal"
    by (simp add: guarded_def submits_in_flight_def init_journal_def)
  from guarded_run [OF this, of evs] show ?thesis
    by (simp add: guarded_def submit_disabled_def)
qed

section \<open>Properties of the insight synchronizer\<close>

subsection \<open>What each step leaves alone\<close>

lemma perform_simps [simp]:
  "trace (perform rq w) = trace w @ [Query rq]"
  "session (perform rq w) = session w"
  "rejects (perform rq w) = rejects w"
  "ui (perform rq w) = ui w"
  "waiting (perform rq w) = waiting w"
  "db (perform rq w) = (if rejects w rq then db w else store_after rq (db w))"
  by (simp_all add: perform_def)

lemma toast_simps [simp]:
  "trace (toast title d w) = trace w @ [Toast title d]"
  "session (toast title d w) = session w"
  "rejects (toast title d w) = rejects w"
  "ui (toast title d w) = ui w"
  "waiting (toast title d w) = waiting w"
  "db (toast title d w) = db w"
  by (simp_all add: toast_def)

lemma setTasks_simps [simp]:
  "trace (setTasks x w) = trace w" "session (setTasks x w) = session w"
  "rejects (setTasks x w) = rejects w" "db (setTasks x w) = db w"
  "waiting (setTasks x w) = waiting w"
  "editingId (ui (setTasks x w)) = editingId (ui w)"
  "editingType (ui (setTasks x w)) = editingType (ui w)"
  "editValue (ui (setTasks x w)) = editValue (ui w)"
  "tasks (ui (setTasks x w)) = (case x of None \<Rightarrow> tasks (ui w) | Some rs \<Rightarrow> rs)"
  "events (ui (setTasks x w)) = events (ui w)"
  "notes (ui (setTasks x w)) = notes (ui w)"
  "health (ui (setTasks x w)) = health (ui w)"
  by (simp_all add: setTasks_def split: option.splits)

lemma setEvents_simps [simp]:
  "trace (setEvents x w) = trace w" "session (setEvents x w) = session w"
  "rejects (setEvents x w) = rejects w" "db (setEvents x w) = db w"
  "waiting (setEvents x w) = waiting w"
  "editingId (ui (setEvents x w)) = editingId (ui w)"
  "editingType (ui (setEvents x w)) = editingType (ui w)"
  "editValue (ui (setEvents x w)) = editValue (ui w)"
  "tasks (ui (setEvents x w)) = tasks (ui w)"
  "events (ui (setEvents x w)) = (case x of None \<Rightarrow> events (ui w) | Some rs \<Rightarrow> rs)"
  "notes (ui (setEvents x w)) = notes (ui w)"
  "health (ui (setEvents x w)) = health (ui w)"
  by (simp_all add: setEvents_def split: option.splits)

lemma setNotes_simps [simp]:
  "trace (setNotes x w) = trace w" "session (setNotes x w) = session w"
  "rejects (setNotes x w) = rejects w" "db (setNotes x w) = db w"
  "waiting (setNotes x w) = waiting w"
  "editingId (ui (setNotes x w)) = editingId (ui w)"
  "editingType (ui (setNotes x w)) = editingType (ui w)"
  "editValue (ui (setNotes x w)) = editValue (ui w)"
  "tasks (ui (setNotes x w)) = tasks (ui w)"
  "events (ui (setNotes x w)) = events (ui w)"
  "notes (ui (setNotes x w)) = (case x of None \<Rightarrow> notes (ui w) | Some rs \<Rightarrow> rs)"
  "health (ui (setNotes x w)) = health (ui w)"
  by (simp_all add: setNotes_def split: option.splits)

lemma setHealth_simps [simp]:
  "trace (setHealth x w) = trace w" "session (setHealth x w) = session w"
  "rejects (setHealth x w) = rejects w" "db (setHealth x w) = db w"
  "waiting (setHealth x w) = waiting w"
  "editingId (ui (setHealth x w)) = editingId (ui w)"
  "editingType (ui (setHealth x w)) = editingType (ui w)"
  "editValue (ui (setHealth x w)) = editValue (ui w)"
  "tasks (ui (setHealth x w)) = tasks (ui w)"
  "events (ui (setHealth x w)) = events (ui w)"
  "notes (ui (setHealth x w)) = notes (ui w)"
  "health (ui (setHealth x w)) = (case x of None \<Rightarrow> health (ui w) | Some rs \<Rightarrow> rs)"
  by (simp_all add: setHealth_def split: option.splits)

lemma cancelEdit_simps [simp]:
  "trace (cancelEdit w) = trace w" "session (cancelEdit w) = session w"
  "rejects (cancelEdit w) = rejects w" "db (cancelEdit w) = db w"
  "waiting (cancelEdit w) = waiting w"
  "tasks (ui (cancelEdit w)) = tasks (ui w)" "events (ui (cancelEdit w)) = events (ui w)"
  "notes (ui (cancelEdit w)) = notes (ui w)" "health (ui (cancelEdit w)) = health (ui w)"
  "editingId (ui (cancelEdit w)) = None"
  "editingType (ui (cancelEdit w)) = None"
  "editValue (ui (cancelEdit w)) = []"
  by (simp_all add: cancelEdit_def)

lemma startEdit_simps [simp]:
  "db (startEdit i t v w) = db w" "trace (startEdit i t v w) = trace w"
  "session (startEdit i t v w) = session w" "rejects (startEdit i t v w) = rejects w"
  "waiting (startEdit i t v w) = waiting w"
  "tasks (ui (startEdit i t v w)) = tasks (ui w)" "events (ui (startEdit i t v w)) = events (ui w)"
  "notes (ui (startEdit i t v w)) = notes (ui w)" "health (ui (startEdit i t v w)) = health (ui w)"
  "editingId (ui (startEdit i t v w)) = Some i"
  "editingType (ui (startEdit i t v w)) = Some t"
  "editValue (ui (startEdit i t v w)) = v"
  by (simp_all add: startEdit_def)

lemma wait_simps [simp]:
  "trace (wait p w) = trace w" "session (wait p w) = session w"
  "rejects (wait p w) = rejects w" "db (wait p w) = db w" "ui (wait p w) = ui w"
  "waiting (wait p w) = waiting w @ [p]"
  by (simp_all add: wait_def)

subsection \<open>Load\<close>

lemma fetchData_trace:
  "trace (fetchData w) = trace w @ (case session w of None \<Rightarrow> [GetUser] | Some u \<Rightarrow> reload u)"
  by (simp add: fetchData_def reload_def Let_def split: option.splits)

lemma fetchData_simps [simp]:
  "db (fetchData w) = db w"
  "session (fetchData w) = session w"
  "rejects (fetchData w) = rejects w"
  "waiting (fetchData w) = waiting w"
  "editingId (ui (fetchData w)) = editingId (ui w)"
  "editingType (ui (fetchData w)) = editingType (ui w)"
  "editValue (ui (fetchData w)) = editValue (ui w)"
  by (simp_all add: fetchData_def Let_def split: option.splits)

lemma fetchData_signed_out:
  "session w = None \<Longrightarrow> fetchData w = w\<lparr>trace := trace w @ [GetUser]\<rparr>"
  by (simp add: fetchData_def)

lemma fetchData_tasks:
  assumes "session w = Some u" "db w ''tasks'' = Some rs"
    and "\<not> rejects w (Select ''tasks'' [(''user_id'', u)] ''created_at'' False None)"
  shows "tasks (ui (fetchData w)) =
           order_by ''created_at'' False (filter (matches [(''user_id'', u)]) rs)"
  using assms by (simp add: fetchData_def Let_def respond_def limit_def)

text \<open>
  Claim C8. With a user signed in, a load asks the authentication context and then
  sends exactly four queries, each filtered by \<open>user_id\<close> of that user: tasks by
  \<open>created_at\<close> descending, calendar events by \<open>event_date\<close> ascending, notes and
  health mentions by \<open>created_at\<close> descending with limit 10; the first two have no
  limit. With no user, the load ends after the authentication context: no query, no
  notification, the panels and the store as they were.
\<close>

theorem fetchData_requests:
  "(session w = Some u \<longrightarrow>
      trace (fetchData w) = trace w @
        [GetUser,
         Query (Select ''tasks'' [(''user_id'', u)] ''created_at'' False None),
         Query (Select ''calendar_events'' [(''user_id'', u)] ''event_date'' True None),
         Query (Select ''notes'' [(''user_id'', u)] ''created_at'' False (Some 10)),
         Query (Select ''health_mentions'' [(''user_id'', u)] ''created_at'' False (Some 10))]) \<and>
   (session w = None \<longrightarrow> fetchData w = w\<lparr>trace := trace w @ [GetUser]\<rparr>)"
  by (simp add: fetchData_trace fetchData_signed_out reload_def)

theorem fetchData_requests_witness:
  "trace (fetchData example_world) =
     [GetUser,
      Query (Select ''tasks'' [(''user_id'', ''alice'')] ''created_at'' False None),
      Query (Select ''calendar_events'' [(''user_id'', ''alice'')] ''event_date'' True None),
      Query (Select ''notes'' [(''user_id'', ''alice'')] ''created_at'' False (Some 10)),
      Query (Select ''health_mentions'' [(''user_id'', ''alice'')] ''created_at'' False (Some 10))] \<and>
   trace (fetchData (example_world\<lparr>session := None\<rparr>)) = [GetUser] \<and>
   ui (fetchData (example_world\<lparr>session := None\<rparr>)) = ui example_world"
  using fetchData_requests [of example_world "''alice''"]
    fetchData_requests [of "example_world\<lparr>session := None\<rparr>" "''alice''"]
  by (simp add: example_world_def)

subsection \<open>The edit cursor\<close>

lemma cursor_simps [simp]:
  "cursor (ui (startEdit i t v w)) = Some (t, i, v)"
  "cursor (ui (cancelEdit w)) = None"
  "cursor (ui (fetchData w)) = cursor (ui w)"
  "cursor (ui (perform q w)) = cursor (ui w)"
  "cursor (ui (toast title d w)) = cursor (ui w)"
  by (simp_all add: cursor_def split: option.splits)

lemma saveEdit_active:
  assumes "editingId (ui w) = Some i" "editingType (ui w) = Some t" "i \<noteq> []" "t \<noteq> []"
  shows "saveEdit w =
     (case saveEdit_request t i (editValue (ui w)) of
        None \<Rightarrow> fetchData (cancelEdit (toast ''Updated successfully'' False w))
      | Some q \<Rightarrow> if error (respond q w) then toast ''Failed to update'' True (perform q w)
                  else fetchData (cancelEdit (toast ''Updated successfully'' False (perform q w))))"
  using assms by (simp add: saveEdit_def Let_def split: option.splits)

lemma deleteItem_unfold:
  "deleteItem i t w =
     (case deleteItem_request t i of
        None \<Rightarrow> fetchData (toast ''Deleted successfully'' False w)
      | Some q \<Rightarrow> if error (respond q w) then toast ''Failed to delete'' True (perform q w)
                  else fetchData (toast ''Deleted successfully'' False (perform q w)))"
  by (simp add: deleteItem_def Let_def split: option.splits)

text \<open>
  Claim C10. With \<^verbatim>\<open>editingId\<close> or \<^verbatim>\<open>editingType\<close> null, \<^verbatim>\<open>saveEdit\<close>
  returns at once: the world after it is the world before it, so no request is sent,
  nothing is surfaced, and the panels, the cursor and the edit buffer are unchanged.
\<close>

theorem saveEdit_without_cursor:
  "editingId (ui w) = None \<or> editingType (ui w) = None \<Longrightarrow> saveEdit w = w"
  by (cases "editingId (ui w)"; cases "editingType (ui w)"; simp add: saveEdit_def)

theorem saveEdit_without_cursor_witness:
  "editingId (ui example_world) = None \<and> saveEdit example_world = example_world"
  using saveEdit_without_cursor [of example_world]
  by (simp add: example_world_def)

text \<open>
  Claim C7. The three state variables read as the cursor \<open>None\<close> or
  \<open>Some (kind, id, buffer)\<close>. Begin edit sets the cursor to the new record and
  buffer whatever it was before, and touches neither the store nor the trace (no
  remote call, also none for the record edited before). Cancel edit clears the cursor,
  again with the store and the trace untouched. Save edit with an active cursor clears
  the cursor when its request succeeds (or when the kind is none of the four and no
  request is sent), and leaves the cursor, buffer included, as it was when the request
  fails.
\<close>

theorem edit_cursor_transitions:
  "cursor (ui (startEdit i t v w)) = Some (t, i, v) \<and>
   db (startEdit i t v w) = db w \<and> trace (startEdit i t v w) = trace w \<and>
   cursor (ui (cancelEdit w)) = None \<and>
   db (cancelEdit w) = db w \<and> trace (cancelEdit w) = trace w \<and>
   (cursor (ui w) = Some (t, i, v) \<and> i \<noteq> [] \<and> t \<noteq> [] \<longrightarrow>
      (case saveEdit_request t i v of
         None \<Rightarrow> cursor (ui (saveEdit w)) = None
       | Some q \<Rightarrow> if error (respond q w) then cursor (ui (saveEdit w)) = cursor (ui w)
                   else cursor (ui (saveEdit w)) = None))"
proof (intro conjI impI)
  assume a: "cursor (ui w) = Some (t, i, v) \<and> i \<noteq> [] \<and> t \<noteq> []"
  then have c: "editingId (ui w) = Some i" "editingType (ui w) = Some t" "editValue (ui w) = v"
    by (auto simp: cursor_def split: option.splits)
  from a have n: "i \<noteq> []" "t \<noteq> []" by simp_all
  show "case saveEdit_request t i v of
         None \<Rightarrow> cursor (ui (saveEdit w)) = None
       | Some q \<Rightarrow> if error (respond q w) then cursor (ui (saveEdit w)) = cursor (ui w)
                   else cursor (ui (saveEdit w)) = None"
    using saveEdit_active [OF c(1) c(2) n] c(3) by (simp split: option.splits)
qed simp_all

theorem edit_cursor_transitions_witness:
  "cursor (ui (saveEdit (startEdit ''n1'' ''notes'' ''Feeling great'' example_world))) = None \<and>
   cursor (ui (saveEdit (startEdit ''n1'' ''notes'' ''Feeling great'' offline_world))) =
     Some (''notes'', ''n1'', ''Feeling great'') \<and>
   cursor (ui (startEdit ''t1'' ''tasks'' ''Report'' (startEdit ''n1'' ''notes'' ''Feeling great'' example_world))) =
     Some (''tasks'', ''t1'', ''Report'')"
  using edit_cursor_transitions
          [of "''n1''" "''notes''" "''Feeling great''"
              "startEdit ''n1'' ''notes'' ''Feeling great'' example_world"]
    edit_cursor_transitions
          [of "''n1''" "''notes''" "''Feeling great''"
              "startEdit ''n1'' ''notes'' ''Feeling great'' offline_world"]
    edit_cursor_transitions
          [of "''t1''" "''tasks''" "''Report''"
              "startEdit ''n1'' ''notes'' ''Feeling great'' example_world"]
  by (simp add: saveEdit_request_def respond_def example_world_def example_store_def
        offline_world_def)

subsection \<open>The steps of a reload\<close>

lemma deliver_nothing: "length (waiting w) \<le> n \<Longrightarrow> deliver n w = w"
  by (simp add: deliver_def)

lemma deliver_first: "waiting w = p # ps \<Longrightarrow> deliver 0 w = go_on p (w\<lparr>waiting := ps\<rparr>)"
  by (simp add: deliver_def)

lemma deliver_last:
  "n = length (waiting w) \<Longrightarrow> deliver n (wait p w) = go_on p w"
  by (simp add: deliver_def wait_def)

lemma fetchData_call_simps [simp]:
  "trace (fetchData_call w) = trace w @ [GetUser]" "session (fetchData_call w) = session w"
  "rejects (fetchData_call w) = rejects w" "db (fetchData_call w) = db w"
  "ui (fetchData_call w) = ui w"
  "waiting (fetchData_call w) = waiting w @ [Wait_user (session w)]"
  by (simp_all add: fetchData_call_def)

lemma fetchData_user_simps [simp]:
  "session (fetchData_user v w) = session w" "rejects (fetchData_user v w) = rejects w"
  "db (fetchData_user v w) = db w" "ui (fetchData_user v w) = ui w"
  "trace (fetchData_user v w) = trace w @ (case v of None \<Rightarrow> [] | Some u \<Rightarrow> tl (reload u))"
  by (cases v; simp add: Let_def reload_def)+

lemma fetchData_user_waiting:
  "\<exists>a b c e. waiting (fetchData_user (Some u) w) = waiting w @ [Wait_all a b c e]"
  by (simp add: Let_def)

declare fetchData_user.simps(2) [simp del]

lemma fetchData_land_simps [simp]:
  "session (fetchData_land a b c e w) = session w" "rejects (fetchData_land a b c e w) = rejects w"
  "db (fetchData_land a b c e w) = db w" "trace (fetchData_land a b c e w) = trace w"
  "waiting (fetchData_land a b c e w) = waiting w"
  "editingId (ui (fetchData_land a b c e w)) = editingId (ui w)"
  "editingType (ui (fetchData_land a b c e w)) = editingType (ui w)"
  "editValue (ui (fetchData_land a b c e w)) = editValue (ui w)"
  by (simp_all add: fetchData_land_def)

text \<open>
  The whole run of \<^verbatim>\<open>fetchData\<close> is its three steps with nothing in between.
\<close>

lemma fetchData_whole:
  assumes "n = length (waiting w)"
  shows "deliver n (deliver n (fetchData_call w)) = fetchData w"
proof (cases "session w")
  case None
  have "deliver n (fetchData_call w) = w\<lparr>trace := trace w @ [GetUser]\<rparr>"
    unfolding fetchData_call_def using assms None by (simp add: deliver_last)
  then show ?thesis
    using assms None by (simp add: deliver_nothing fetchData_signed_out)
next
  case (Some u)
  let ?w0 = "w\<lparr>trace := trace w @ [GetUser]\<rparr>"
  have "deliver n (fetchData_call w) = fetchData_user (Some u) ?w0"
    unfolding fetchData_call_def using assms Some by (simp add: deliver_last)
  then show ?thesis
    using assms Some
    by (simp add: Let_def deliver_last fetchData_def fetchData_land_def fetchData_user.simps(2))
qed

subsection \<open>What the mutating operations send\<close>

lemma mutations_append [simp]: "mutations (xs @ ys) = mutations xs @ mutations ys"
  by (induction xs rule: mutations.induct) simp_all

lemma mutations_reload [simp]: "mutations (reload u) = []"
  by (simp add: reload_def)

lemma fetchData_mutations [simp]: "mutations (trace (fetchData w)) = mutations (trace w)"
  by (simp add: fetchData_trace split: option.splits)

lemma toggleTask_simps [simp]:
  "trace (toggleTask i c w) =
     trace w @ [Query (Update ''tasks'' [(''completed'', Bool (\<not> c))] [(''id'', i)])]"
  "session (toggleTask i c w) = session w" "rejects (toggleTask i c w) = rejects w"
  "ui (toggleTask i c w) = ui w"
  "waiting (toggleTask i c w) = waiting w @ [Wait_update]"
  "db (toggleTask i c w) =
     (if rejects w (Update ''tasks'' [(''completed'', Bool (\<not> c))] [(''id'', i)]) then db w
      else store_after (Update ''tasks'' [(''completed'', Bool (\<not> c))] [(''id'', i)]) (db w))"
  by (simp_all add: toggleTask_def)

lemma saveEdit_request_cases:
  assumes "saveEdit_request t i v = Some q"
  shows "t \<in> {''tasks'', ''calendar_events'', ''notes'', ''health_mentions''}"
    and "q = Update t [(if t = ''tasks'' \<or> t = ''calendar_events'' then ''title'' else ''content'', Str v)]
                     [(''id'', i)]"
  using assms by (auto simp: saveEdit_request_def split: if_splits)

lemma deleteItem_request_cases:
  assumes "deleteItem_request t i = Some q"
  shows "t \<in> {''tasks'', ''calendar_events'', ''notes'', ''health_mentions''}"
    and "q = Delete t [(''id'', i)]"
  using assms by (auto simp: deleteItem_request_def split: if_splits)

lemma saveEdit_request_None:
  "saveEdit_request t i v = None \<longleftrightarrow>
     t \<notin> {''tasks'', ''calendar_events'', ''notes'', ''health_mentions''}"
  by (simp add: saveEdit_request_def)

lemma deleteItem_request_None:
  "deleteItem_request t i = None \<longleftrightarrow>
     t \<notin> {''tasks'', ''calendar_events'', ''notes'', ''health_mentions''}"
  by (simp add: deleteItem_request_def)

lemma deleteItem_mutations:
  "mutations (trace (deleteItem i t w)) =
     mutations (trace w) @
       (if t \<in> {''tasks'', ''calendar_events'', ''notes'', ''health_mentions''}
        then [Delete t [(''id'', i)]] else [])"
proof (cases "deleteItem_request t i")
  case None
  from deleteItem_request_None [THEN iffD1, OF None] None show ?thesis
    by (simp add: deleteItem_unfold)
next
  case (Some q)
  from deleteItem_request_cases [OF Some] Some show ?thesis
    by (simp add: deleteItem_unfold)
qed

lemma saveEdit_mutations:
  assumes "editingId (ui w) = Some i" "editingType (ui w) = Some t" "i \<noteq> []" "t \<noteq> []"
  shows "mutations (trace (saveEdit w)) =
     mutations (trace w) @
       (if t \<in> {''tasks'', ''calendar_events''}
          then [Update t [(''title'', Str (editValue (ui w)))] [(''id'', i)]]
        else if t \<in> {''notes'', ''health_mentions''}
          then [Update t [(''content'', Str (editValue (ui w)))] [(''id'', i)]]
        else [])"
proof (cases "saveEdit_request t i (editValue (ui w))")
  case None
  from saveEdit_request_None [THEN iffD1, OF None] None show ?thesis
    by (simp add: saveEdit_active [OF assms])
next
  case (Some q)
  from saveEdit_request_cases [OF Some] Some show ?thesis
    by (auto simp: saveEdit_active [OF assms])
qed

text \<open>
  What the three mutating operations send: at most one update or delete, to the
  collection named by the kind, with the one filter \<open>id = i\<close>.
\<close>

lemma mutations_select_by_id:
  "mutations (trace (toggleTask i c w)) =
     mutations (trace w) @ [Update ''tasks'' [(''completed'', Bool (\<not> c))] [(''id'', i)]] \<and>
   mutations (trace (deleteItem i t w)) =
     mutations (trace w) @
       (if t \<in> {''tasks'', ''calendar_events'', ''notes'', ''health_mentions''}
        then [Delete t [(''id'', i)]] else []) \<and>
   (editingId (ui w) = Some i \<and> editingType (ui w) = Some t \<and> i \<noteq> [] \<and> t \<noteq> [] \<longrightarrow>
    mutations (trace (saveEdit w)) =
     mutations (trace w) @
       (if t \<in> {''tasks'', ''calendar_events''}
          then [Update t [(''title'', Str (editValue (ui w)))] [(''id'', i)]]
        else if t \<in> {''notes'', ''health_mentions''}
          then [Update t [(''content'', Str (editValue (ui w)))] [(''id'', i)]]
        else []))"
proof (intro conjI impI)
  show "mutations (trace (toggleTask i c w)) =
     mutations (trace w) @ [Update ''tasks'' [(''completed'', Bool (\<not> c))] [(''id'', i)]]"
    by simp
  show "mutations (trace (deleteItem i t w)) =
     mutations (trace w) @
       (if t \<in> {''tasks'', ''calendar_events'', ''notes'', ''health_mentions''}
        then [Delete t [(''id'', i)]] else [])"
    by (rule deleteItem_mutations)
  assume "editingId (ui w) = Some i \<and> editingType (ui w) = Some t \<and> i \<noteq> [] \<and> t \<noteq> []"
  then show "mutations (trace (saveEdit w)) =
     mutations (trace w) @
       (if t \<in> {''tasks'', ''calendar_events''}
          then [Update t [(''title'', Str (editValue (ui w)))] [(''id'', i)]]
        else if t \<in> {''notes'', ''health_mentions''}
          then [Update t [(''content'', Str (editValue (ui w)))] [(''id'', i)]]
        else [])"
    by (simp add: saveEdit_mutations)
qed

subsection \<open>Rows and the tasks table\<close>

lemma map_of_set_field: "map_of (set_field k v r) = (map_of r)(k \<mapsto> v)"
  by (induction r) (auto simp: fun_eq_iff)

lemma field_set_field: "field (set_field k v r) k' = (if k' = k then v else field r k')"
  by (simp add: field_def map_of_set_field)

lemma set_field_same: "map_of r k = Some v \<Longrightarrow> set_field k v r = r"
  by (induction r) (auto split: if_splits)

lemma set_field_twice: "set_field k v (set_field k v' r) = set_field k v r"
  by (induction r) auto

lemma field_Bool: "field r k = Bool b \<Longrightarrow> map_of r k = Some (Bool b)"
  by (simp add: field_def split: option.splits)

lemma assign_one [simp]: "assign [(k, v)] r = set_field k v r"
  by (simp add: assign_def)

lemma matches_one [simp]: "matches [(k, v)] r \<longleftrightarrow> field r k = Str v"
  by (simp add: matches_def)

lemma set_insert_row [simp]: "set (insert_row le r rs) = insert r (set rs)"
  by (induction rs) auto

lemma set_order_by [simp]: "set (order_by column ascending rs) = set rs"
  by (induction rs) (simp_all add: order_by_def)


lemma flip_completed:
  "r \<in> set (flip i b rs) \<Longrightarrow> field r ''id'' = Str i \<Longrightarrow> field r ''completed'' = Bool b"
  by (auto simp: flip_def field_set_field split: if_splits)

lemma flip_keeps:
  assumes "r \<in> set rs"
  shows "\<exists>r' \<in> set (flip i b rs).
           field r' ''id'' = field r ''id'' \<and> field r' ''user_id'' = field r ''user_id''"
proof -
  let ?f = "\<lambda>r. if field r ''id'' = Str i then set_field ''completed'' (Bool b) r else r"
  have "?f r \<in> set (flip i b rs)"
    unfolding flip_def using assms by (rule imageI [of r "set rs" ?f, folded set_map])
  moreover have "field (?f r) ''id'' = field r ''id''" "field (?f r) ''user_id'' = field r ''user_id''"
    by (simp_all add: field_set_field)
  ultimately show ?thesis by blast
qed

lemma flip_twice: "flip i c (flip i b rs) = flip i c rs"
  by (induction rs) (auto simp: flip_def field_set_field set_field_twice)

lemma flip_same:
  assumes "\<forall>r \<in> set rs. field r ''id'' = Str i \<longrightarrow> field r ''completed'' = Bool c"
  shows "flip i c rs = rs"
  using assms by (induction rs) (auto simp: flip_def set_field_same field_Bool)

lemma store_after_toggle:
  "d ''tasks'' = Some rs \<Longrightarrow>
   store_after (Update ''tasks'' [(''completed'', Bool b)] [(''id'', i)]) d = d(''tasks'' \<mapsto> flip i b rs)"
  by (simp add: flip_def cong: if_cong)

lemma click_checkbox_shown:
  assumes "find (\<lambda>task. field task ''id'' = Str i) (tasks (ui w)) = Some task"
  shows "click_checkbox i w = toggleTask i (truthy (field task ''completed'')) w"
proof -
  from assms have "field task ''id'' = Str i" by (auto simp: find_Some_iff)
  with assms show ?thesis by (simp add: click_checkbox_def)
qed

text \<open>
  A toggle that is left alone from the click to the end of its reload is the update
  followed by the whole run of \<^verbatim>\<open>fetchData\<close>.
\<close>

lemma toggle_and_reload_shown:
  assumes "find (\<lambda>task. field task ''id'' = Str i) (tasks (ui w)) = Some task"
  shows "toggle_and_reload i w =
     fetchData (perform (Update ''tasks'' [(''completed'', Bool (\<not> truthy (field task ''completed'')))]
                           [(''id'', i)]) w)"
proof -
  let ?w' = "perform (Update ''tasks'' [(''completed'', Bool (\<not> truthy (field task ''completed'')))]
                           [(''id'', i)]) w"
  have n: "length (waiting w) = length (waiting ?w')" by simp
  have "deliver (length (waiting w)) (click_checkbox i w) = fetchData_call ?w'"
    unfolding click_checkbox_shown [OF assms] toggleTask_def
    by (simp add: deliver_last toggleTask_resume_def)
  then show ?thesis
    unfolding toggle_and_reload_def Let_def by (simp add: fetchData_whole [OF n])
qed


lemma deliver_keeps [simp]:
  "db (deliver n w) = db w" "session (deliver n w) = session w" "rejects (deliver n w) = rejects w"
proof -
  have "db (go_on p v) = db v \<and> session (go_on p v) = session v \<and> rejects (go_on p v) = rejects v"
    for p v
    by (cases p) (simp_all add: toggleTask_resume_def)
  then show "db (deliver n w) = db w" "session (deliver n w) = session w"
    "rejects (deliver n w) = rejects w"
    by (simp_all add: deliver_def)
qed

lemma two_clicks_then_answers:
  assumes idle: "waiting w = []" and signed_in: "session w = Some u"
    and shown: "find (\<lambda>task. field task ''id'' = Str i) (tasks (ui w)) = Some task"
    and flag: "c = truthy (field task ''completed'')"
  shows "waiting (browse w [Check i, Check i, Deliver 0, Deliver 0, Deliver 0, Deliver 0,
                             Deliver 0, Deliver 0]) = []"
    and "trace (browse w [Check i, Check i, Deliver 0, Deliver 0, Deliver 0, Deliver 0,
                           Deliver 0, Deliver 0]) =
           trace w @
           [Query (Update ''tasks'' [(''completed'', Bool (\<not> c))] [(''id'', i)]),
            Query (Update ''tasks'' [(''completed'', Bool (\<not> c))] [(''id'', i)]),
            GetUser, GetUser] @ tl (reload u) @ tl (reload u)"
    and "db (browse w [Check i, Check i, Deliver 0, Deliver 0, Deliver 0, Deliver 0,
                        Deliver 0, Deliver 0]) = db (toggleTask i c (toggleTask i c w))"
proof -
  let ?U = "Query (Update ''tasks'' [(''completed'', Bool (\<not> c))] [(''id'', i)])"
  define w1 where "w1 = click_checkbox i w"
  define w2 where "w2 = click_checkbox i w1"
  define w3 where "w3 = deliver 0 w2"
  define w4 where "w4 = deliver 0 w3"
  define w5 where "w5 = deliver 0 w4"
  define w6 where "w6 = deliver 0 w5"
  define w7 where "w7 = deliver 0 w6"
  define w8 where "w8 = deliver 0 w7"
  have all: "browse w [Check i, Check i, Deliver 0, Deliver 0, Deliver 0, Deliver 0,
                        Deliver 0, Deliver 0] = w8"
    by (simp add: browse_def w1_def w2_def w3_def w4_def w5_def w6_def w7_def w8_def)
  have w1: "w1 = toggleTask i c w"
    unfolding w1_def flag by (rule click_checkbox_shown [OF shown])
  have "find (\<lambda>task. field task ''id'' = Str i) (tasks (ui w1)) = Some task"
    using shown by (simp add: w1)
  then have w2: "w2 = toggleTask i c w1"
    unfolding w2_def flag by (rule click_checkbox_shown)
  have q2: "waiting w2 = [Wait_update, Wait_update]" "trace w2 = trace w @ [?U, ?U]"
    "session w2 = Some u"
    by (simp_all add: w2 w1 idle signed_in)
  have w3: "w3 = fetchData_call (w2\<lparr>waiting := [Wait_update]\<rparr>)"
    unfolding w3_def by (simp add: deliver_first [OF q2(1)] toggleTask_resume_def)
  have q3: "waiting w3 = [Wait_update, Wait_user (Some u)]" "trace w3 = trace w @ [?U, ?U, GetUser]"
    "session w3 = Some u"
    by (simp_all add: w3 q2)
  have w4: "w4 = fetchData_call (w3\<lparr>waiting := [Wait_user (Some u)]\<rparr>)"
    unfolding w4_def by (simp add: deliver_first [OF q3(1)] toggleTask_resume_def)
  have q4: "waiting w4 = [Wait_user (Some u), Wait_user (Some u)]"
    "trace w4 = trace w @ [?U, ?U, GetUser, GetUser]"
    by (simp_all add: w4 q3)
  have w5: "w5 = fetchData_user (Some u) (w4\<lparr>waiting := [Wait_user (Some u)]\<rparr>)"
    unfolding w5_def by (simp add: deliver_first [OF q4(1)])
  from fetchData_user_waiting [of u "w4\<lparr>waiting := [Wait_user (Some u)]\<rparr>"]
  obtain a1 b1 c1 e1 where q5: "waiting w5 = [Wait_user (Some u), Wait_all a1 b1 c1 e1]"
    unfolding w5 by auto
  have t5: "trace w5 = trace w @ [?U, ?U, GetUser, GetUser] @ tl (reload u)"
    by (simp add: w5 q4)
  have w6: "w6 = fetchData_user (Some u) (w5\<lparr>waiting := [Wait_all a1 b1 c1 e1]\<rparr>)"
    unfolding w6_def by (simp add: deliver_first [OF q5])
  from fetchData_user_waiting [of u "w5\<lparr>waiting := [Wait_all a1 b1 c1 e1]\<rparr>"]
  obtain a2 b2 c2 e2 where q6: "waiting w6 = [Wait_all a1 b1 c1 e1, Wait_all a2 b2 c2 e2]"
    unfolding w6 by auto
  have t6: "trace w6 = trace w @ [?U, ?U, GetUser, GetUser] @ tl (reload u) @ tl (reload u)"
    by (simp add: w6 t5)
  have w7: "w7 = fetchData_land a1 b1 c1 e1 (w6\<lparr>waiting := [Wait_all a2 b2 c2 e2]\<rparr>)"
    unfolding w7_def by (simp add: deliver_first [OF q6])
  have q7: "waiting w7 = [Wait_all a2 b2 c2 e2]" "trace w7 = trace w6"
    by (simp_all add: w7)
  have w8: "w8 = fetchData_land a2 b2 c2 e2 (w7\<lparr>waiting := []\<rparr>)"
    unfolding w8_def by (simp add: deliver_first [OF q7(1)])
  show "waiting (browse w [Check i, Check i, Deliver 0, Deliver 0, Deliver 0, Deliver 0,
                             Deliver 0, Deliver 0]) = []"
    unfolding all by (simp add: w8)
  show "trace (browse w [Check i, Check i, Deliver 0, Deliver 0, Deliver 0, Deliver 0,
                           Deliver 0, Deliver 0]) =
           trace w @
           [Query (Update ''tasks'' [(''completed'', Bool (\<not> c))] [(''id'', i)]),
            Query (Update ''tasks'' [(''completed'', Bool (\<not> c))] [(''id'', i)]),
            GetUser, GetUser] @ tl (reload u) @ tl (reload u)"
    unfolding all by (simp add: w8 q7 t6)
  show "db (browse w [Check i, Check i, Deliver 0, Deliver 0, Deliver 0, Deliver 0,
                        Deliver 0, Deliver 0]) = db (toggleTask i c (toggleTask i c w))"
    unfolding all w8_def w7_def w6_def w5_def w4_def w3_def
    by (simp add: w2 w1 del: toggleTask_simps)
qed

subsection \<open>Toggling twice\<close>




subsection \<open>Records of other users\<close>

text \<open>
  Stores: what a request that touches only the user's own record leaves of the rows,
  their ids and their owners.
\<close>


lemma narrows_refl [simp]: "narrows d d"
  unfolding narrows_def by blast

lemma own_id_narrows: "own_id user d k i \<Longrightarrow> narrows d' d \<Longrightarrow> own_id user d' k i"
proof -
  assume o: "own_id user d k i" and n: "narrows d' d"
  from o obtain u where u: "user = Some u"
    and mine: "\<forall>rs. d k = Some rs \<longrightarrow> (\<forall>r \<in> set rs. field r ''id'' = Str i \<longrightarrow> field r ''user_id'' = Str u)"
    unfolding own_id_def by blast
  have "field r' ''user_id'' = Str u"
    if "d' k = Some rs'" "r' \<in> set rs'" "field r' ''id'' = Str i" for rs' r'
  proof -
    from n that(1,2) obtain rs r where "d k = Some rs" "r \<in> set rs"
      "field r ''id'' = field r' ''id''" "field r ''user_id'' = field r' ''user_id''"
      unfolding narrows_def by blast
    with mine that(3) show ?thesis by auto
  qed
  with u show ?thesis unfolding own_id_def by blast
qed

lemma owner_by_id_narrows:
  assumes "owner_by_id d" "narrows d' d"
  shows "owner_by_id d'"
  unfolding owner_by_id_def
proof (intro allI impI ballI)
  fix k rs' r1 r2
  assume t: "d' k = Some rs'" and r: "r1 \<in> set rs'" "r2 \<in> set rs'"
    and same: "field r1 ''id'' = field r2 ''id''"
  from assms(2) t obtain rs where rs: "d k = Some rs"
    and stem: "\<forall>r' \<in> set rs'. \<exists>r \<in> set rs.
       field r ''id'' = field r' ''id'' \<and> field r ''user_id'' = field r' ''user_id''"
    unfolding narrows_def by blast
  from stem r obtain s1 s2 where s: "s1 \<in> set rs" "s2 \<in> set rs"
    "field s1 ''id'' = field r1 ''id''" "field s1 ''user_id'' = field r1 ''user_id''"
    "field s2 ''id'' = field r2 ''id''" "field s2 ''user_id'' = field r2 ''user_id''"
    by blast
  with same have "field s1 ''id'' = field s2 ''id''" by simp
  with assms(1) rs s(1,2) have "field s1 ''user_id'' = field s2 ''user_id''"
    unfolding owner_by_id_def by blast
  with s show "field r1 ''user_id'' = field r2 ''user_id''" by simp
qed

lemma rows_own_narrows: "rows_own user d k ps \<Longrightarrow> narrows d' d \<Longrightarrow> rows_own user d' k ps"
  unfolding rows_own_def by (blast intro: own_id_narrows)

lemma answer_own_narrows: "answer_own user d k a \<Longrightarrow> narrows d' d \<Longrightarrow> answer_own user d' k a"
  unfolding answer_own_def by (auto split: option.splits intro: rows_own_narrows)

lemma waiting_own_narrows: "waiting_own user d p \<Longrightarrow> narrows d' d \<Longrightarrow> waiting_own user d' p"
  by (cases p) (auto intro: answer_own_narrows)

lemma narrows_update:
  assumes "c \<noteq> ''id''" "c \<noteq> ''user_id''"
  shows "narrows (store_after (Update k [(c, v)] filters) d) d"
proof (cases "d k")
  case None
  then show ?thesis by simp
next
  case (Some rs)
  let ?f = "\<lambda>r. if matches filters r then set_field c v r else r"
  have f: "field (?f r) ''id'' = field r ''id'' \<and> field (?f r) ''user_id'' = field r ''user_id''" for r
    using assms by (simp add: field_set_field)
  have eq: "store_after (Update k [(c, v)] filters) d = d(k \<mapsto> map ?f rs)"
    using Some by (simp cong: if_cong)
  have "narrows (d(k \<mapsto> map ?f rs)) d"
    unfolding narrows_def
  proof (intro allI impI)
    fix k' rs'
    assume a: "(d(k \<mapsto> map ?f rs)) k' = Some rs'"
    show "\<exists>rs0. d k' = Some rs0 \<and> (\<forall>r' \<in> set rs'. \<exists>r \<in> set rs0.
       field r ''id'' = field r' ''id'' \<and> field r ''user_id'' = field r' ''user_id'')"
    proof (cases "k' = k")
      case True
      with a have rs': "rs' = map ?f rs" by (simp only: fun_upd_same option.inject)
      have "\<exists>r \<in> set rs. field r ''id'' = field r' ''id'' \<and> field r ''user_id'' = field r' ''user_id''"
        if "r' \<in> set rs'" for r'
      proof -
        from that rs' obtain r where r: "r \<in> set rs" "r' = ?f r" by auto
        from f [of r] have "field r ''id'' = field r' ''id'' \<and> field r ''user_id'' = field r' ''user_id''"
          unfolding r(2) by simp
        with r(1) show ?thesis by blast
      qed
      with Some True show ?thesis by blast
    next
      case False
      with a have "d k' = Some rs'" by simp
      then show ?thesis by blast
    qed
  qed
  then show ?thesis by (simp only: eq)
qed

lemma narrows_delete: "narrows (store_after (Delete k filters) d) d"
proof (cases "d k")
  case None
  then show ?thesis by simp
next
  case (Some rs)
  show ?thesis
    unfolding narrows_def
  proof (intro allI impI)
    fix k' rs'
    assume a: "store_after (Delete k filters) d k' = Some rs'"
    show "\<exists>rs0. d k' = Some rs0 \<and> (\<forall>r' \<in> set rs'. \<exists>r \<in> set rs0.
       field r ''id'' = field r' ''id'' \<and> field r ''user_id'' = field r' ''user_id'')"
    proof (cases "k' = k")
      case True
      with a Some have "rs' = filter (\<lambda>r. \<not> matches filters r) rs" by simp
      with Some True show ?thesis by auto
    next
      case False
      with a Some have "d k' = Some rs'" by simp
      then show ?thesis by blast
    qed
  qed
qed

lemma narrows_store_after: "mutates_own user d rq \<Longrightarrow> narrows (store_after rq d) d"
  by (cases rq) (auto simp del: store_after.simps(2,3) simp add: narrows_update narrows_delete)

lemma others_cases:
  "r \<in> set (others user rs) \<longleftrightarrow>
     r \<in> set rs \<and> (\<forall>u. user = Some u \<longrightarrow> field r ''user_id'' \<noteq> Str u)"
  by (auto simp: others_def split: option.splits)

lemma others_update:
  assumes "own_id user d k i" "c \<noteq> ''user_id''" "c \<noteq> ''id''"
  shows "map_option (others user) (store_after (Update k [(c, v)] [(''id'', i)]) d t) =
         map_option (others user) (d t)"
proof (cases "d k")
  case None
  then show ?thesis by simp
next
  case (Some rs)
  from assms(1) obtain u where u: "user = Some u"
    and mine: "\<forall>r \<in> set rs. field r ''id'' = Str i \<longrightarrow> field r ''user_id'' = Str u"
    using Some unfolding own_id_def by blast
  let ?f = "\<lambda>r. if field r ''id'' = Str i then set_field c v r else r"
  have "others user (map ?f rs) = others user rs"
    using mine assms(2) unfolding others_def u
    by (induction rs) (auto simp: field_set_field)
  then show ?thesis
    using Some by (simp cong: if_cong)
qed

lemma others_delete:
  assumes "own_id user d k i"
  shows "map_option (others user) (store_after (Delete k [(''id'', i)]) d t) =
         map_option (others user) (d t)"
proof (cases "d k")
  case None
  then show ?thesis by simp
next
  case (Some rs)
  from assms(1) obtain u where u: "user = Some u"
    and mine: "\<forall>r \<in> set rs. field r ''id'' = Str i \<longrightarrow> field r ''user_id'' = Str u"
    using Some unfolding own_id_def by blast
  have "others user (filter (\<lambda>r. field r ''id'' \<noteq> Str i) rs) = others user rs"
    using mine unfolding others_def u by (induction rs) auto
  then show ?thesis
    using Some by simp
qed

lemma others_store_after:
  "mutates_own user d rq \<Longrightarrow>
   map_option (others user) (store_after rq d t) = map_option (others user) (d t)"
  by (cases rq) (auto simp del: store_after.simps(2,3) simp add: others_update others_delete)

text \<open>The page: each step keeps what \<open>page_inv\<close> says.\<close>

lemma page_inv_narrow:
  assumes "page_inv user w" and "session w' = session w" and "ui w' = ui w"
    and "waiting w' = waiting w" and "narrows (db w') (db w)"
  shows "page_inv user w'"
  using assms unfolding page_inv_def
  by (auto intro: owner_by_id_narrows rows_own_narrows own_id_narrows waiting_own_narrows)

lemma page_inv_perform:
  assumes "page_inv user w" "mutates_own user (db w) rq"
  shows "page_inv user (perform rq w)"
  using assms(1)
  by (rule page_inv_narrow) (simp_all add: narrows_store_after [OF assms(2)] del: store_after.simps)

lemma others_perform:
  assumes "mutates_own user (db w) rq"
  shows "map_option (others user) (db (perform rq w) t) = map_option (others user) (db w t)"
  using others_store_after [OF assms] by (simp del: store_after.simps)

lemma page_inv_toast: "page_inv user w \<Longrightarrow> page_inv user (toast title d w)"
  by (erule page_inv_narrow) simp_all

lemma page_inv_wait:
  "page_inv user w \<Longrightarrow> waiting_own user (db w) p \<Longrightarrow> page_inv user (wait p w)"
  unfolding page_inv_def by simp

lemma page_inv_leave:
  assumes "page_inv user w"
  shows "page_inv user (w\<lparr>waiting := take n (waiting w) @ drop (Suc n) (waiting w)\<rparr>)"
  using assms unfolding page_inv_def
  by (auto dest: in_set_takeD in_set_dropD)

lemma page_inv_cancelEdit: "page_inv user w \<Longrightarrow> page_inv user (cancelEdit w)"
  unfolding page_inv_def by simp

lemma page_inv_startEdit:
  "page_inv user w \<Longrightarrow> own_id user (db w) k i \<Longrightarrow> page_inv user (startEdit i k v w)"
  unfolding page_inv_def by simp

lemma page_inv_editValue:
  "page_inv user w \<Longrightarrow> page_inv user (w\<lparr>ui := (ui w)\<lparr>editValue := v\<rparr>\<rparr>)"
  unfolding page_inv_def by simp

lemma page_inv_set:
  assumes "page_inv user w"
  shows "answer_own user (db w) ''tasks'' a \<Longrightarrow> page_inv user (setTasks (data a) w)"
    and "answer_own user (db w) ''calendar_events'' a \<Longrightarrow> page_inv user (setEvents (data a) w)"
    and "answer_own user (db w) ''notes'' a \<Longrightarrow> page_inv user (setNotes (data a) w)"
    and "answer_own user (db w) ''health_mentions'' a \<Longrightarrow> page_inv user (setHealth (data a) w)"
  using assms unfolding page_inv_def answer_own_def
  by (simp_all split: option.splits)

lemma page_inv_land:
  assumes "page_inv user w" "waiting_own user (db w) (Wait_all a b c e)"
  shows "page_inv user (fetchData_land a b c e w)"
proof -
  from assms(2) have a: "answer_own user (db w) ''tasks'' a"
    and b: "answer_own user (db w) ''calendar_events'' b"
    and c: "answer_own user (db w) ''notes'' c"
    and e: "answer_own user (db w) ''health_mentions'' e"
    by simp_all
  have 1: "page_inv user (setTasks (data a) w)"
    using a by (rule page_inv_set(1) [OF assms(1)])
  have 2: "page_inv user (setEvents (data b) (setTasks (data a) w))"
    using b by (intro page_inv_set(2) [OF 1]) simp
  have 3: "page_inv user (setNotes (data c) (setEvents (data b) (setTasks (data a) w)))"
    using c by (intro page_inv_set(3) [OF 2]) simp
  show ?thesis
    unfolding fetchData_land_def using e by (intro page_inv_set(4) [OF 3]) simp
qed

lemma select_answer_own:
  assumes "owner_by_id (db w)"
  shows "answer_own (Some u) (db w) k (respond (Select k [(''user_id'', u)] column ascending n) w)"
proof (cases "rejects w (Select k [(''user_id'', u)] column ascending n) \<or> db w k = None")
  case True
  then show ?thesis by (auto simp: answer_own_def respond_def)
next
  case False
  then obtain rs where rs: "db w k = Some rs" by auto
  let ?ps = "limit n (order_by column ascending (filter (matches [(''user_id'', u)]) rs))"
  have sel: "data (respond (Select k [(''user_id'', u)] column ascending n) w) = Some ?ps"
    using False rs by (simp add: respond_def)
  have "own_id (Some u) (db w) k i" if "p \<in> set ?ps" "field p ''id'' = Str i" for p i
  proof -
    from that(1) have p: "p \<in> set rs" "field p ''user_id'' = Str u"
      by (auto simp: limit_def split: option.splits dest: in_set_takeD)
    have "field r ''user_id'' = Str u" if "r \<in> set rs" "field r ''id'' = Str i" for r
      using assms rs p that \<open>field p ''id'' = Str i\<close> unfolding owner_by_id_def by metis
    then show ?thesis unfolding own_id_def using rs by auto
  qed
  then show ?thesis unfolding answer_own_def sel rows_own_def by simp
qed

lemma page_inv_call: "page_inv user w \<Longrightarrow> page_inv user (fetchData_call w)"
  unfolding page_inv_def by simp

lemma page_inv_user:
  assumes "page_inv user w"
  shows "page_inv user (fetchData_user user w)"
proof (cases user)
  case None
  with assms show ?thesis by simp
next
  case (Some u)
  let ?q1 = "Select ''tasks'' [(''user_id'', u)] ''created_at'' False None"
  let ?q2 = "Select ''calendar_events'' [(''user_id'', u)] ''event_date'' True None"
  let ?q3 = "Select ''notes'' [(''user_id'', u)] ''created_at'' False (Some 10)"
  let ?q4 = "Select ''health_mentions'' [(''user_id'', u)] ''created_at'' False (Some 10)"
  let ?w1 = "perform ?q1 w"
  let ?w2 = "perform ?q2 ?w1"
  let ?w3 = "perform ?q3 ?w2"
  let ?w4 = "perform ?q4 ?w3"
  from assms have o: "owner_by_id (db w)" by (simp add: page_inv_def)
  have dbs: "db ?w1 = db w" "db ?w2 = db w" "db ?w3 = db w" "db ?w4 = db w" by simp_all
  have inv4: "page_inv user ?w4"
    using assms by (rule page_inv_narrow) simp_all
  have "answer_own user (db w) ''tasks'' (respond ?q1 w)"
    unfolding Some by (rule select_answer_own [OF o])
  moreover have "answer_own user (db w) ''calendar_events'' (respond ?q2 ?w1)"
    unfolding Some using select_answer_own [of ?w1 u "''calendar_events''"] o dbs by simp
  moreover have "answer_own user (db w) ''notes'' (respond ?q3 ?w2)"
    unfolding Some using select_answer_own [of ?w2 u "''notes''"] o dbs by simp
  moreover have "answer_own user (db w) ''health_mentions'' (respond ?q4 ?w3)"
    unfolding Some using select_answer_own [of ?w3 u "''health_mentions''"] o dbs by simp
  ultimately have "waiting_own user (db ?w4)
      (Wait_all (respond ?q1 w) (respond ?q2 ?w1) (respond ?q3 ?w2) (respond ?q4 ?w3))"
    by (simp only: dbs waiting_own.simps)
  from page_inv_wait [OF inv4 this] show ?thesis
    unfolding Some by (simp only: fetchData_user.simps(2) Let_def)
qed

lemma page_inv_go_on:
  assumes "page_inv user w" "waiting_own user (db w) p"
  shows "page_inv user (go_on p w)"
proof (cases p)
  case Wait_update
  with assms show ?thesis by (simp add: toggleTask_resume_def page_inv_call)
next
  case (Wait_user v)
  with assms have "v = user" by simp
  with assms Wait_user show ?thesis by (simp add: page_inv_user)
next
  case (Wait_all a b c e)
  with assms show ?thesis by (simp add: page_inv_land)
qed

lemma page_inv_deliver:
  assumes "page_inv user w"
  shows "page_inv user (deliver n w)"
proof (cases "n < length (waiting w)")
  case True
  let ?w = "w\<lparr>waiting := take n (waiting w) @ drop (Suc n) (waiting w)\<rparr>"
  from True assms have "waiting_own user (db w) (waiting w ! n)"
    by (simp add: page_inv_def)
  then have "waiting_own user (db ?w) (waiting w ! n)" by simp
  from page_inv_go_on [OF page_inv_leave [OF assms] this] True show ?thesis
    by (simp add: deliver_def)
next
  case False
  with assms show ?thesis by (simp add: deliver_def)
qed

lemma page_inv_fetchData:
  assumes "page_inv user w"
  shows "page_inv user (fetchData w)"
  unfolding fetchData_whole [OF refl, symmetric]
  by (intro page_inv_deliver page_inv_call assms)


lemma panel_own:
  assumes "page_inv user w"
  shows "rows_own user (db w) k (panel k (ui w))"
proof -
  from assms have own: "rows_own user (db w) ''tasks'' (tasks (ui w))"
    "rows_own user (db w) ''calendar_events'' (events (ui w))"
    "rows_own user (db w) ''notes'' (notes (ui w))"
    "rows_own user (db w) ''health_mentions'' (health (ui w))"
    by (simp_all add: page_inv_def)
  consider "k = ''tasks''" | "k = ''calendar_events''" | "k = ''notes''" | "k = ''health_mentions''"
    | "k \<noteq> ''tasks''" "k \<noteq> ''calendar_events''" "k \<noteq> ''notes''" "k \<noteq> ''health_mentions''"
    by blast
  then show ?thesis
  proof cases
    case 1
    with own(1) show ?thesis by (simp add: panel_def)
  next
    case 2
    with own(2) show ?thesis by (simp add: panel_def)
  next
    case 3
    with own(3) show ?thesis by (simp add: panel_def)
  next
    case 4
    with own(4) show ?thesis by (simp add: panel_def)
  next
    case 5
    then show ?thesis by (simp add: panel_def rows_own_def)
  qed
qed

lemma shown_own:
  assumes "page_inv user w" "shown k i w = Some r"
  shows "own_id user (db w) k i" and "field r ''id'' = Str i"
proof -
  from assms(2) have r: "r \<in> set (panel k (ui w))" "field r ''id'' = Str i"
    unfolding shown_def by (auto simp: find_Some_iff)
  with panel_own [OF assms(1), of k] show "own_id user (db w) k i"
    unfolding rows_own_def by blast
  from r show "field r ''id'' = Str i" by simp
qed

subsection \<open>The handlers\<close>

lemma toggleTask_keeps:
  assumes "page_inv user w" "own_id user (db w) ''tasks'' i"
  shows "page_inv user (toggleTask i c w) \<and>
         map_option (others user) (db (toggleTask i c w) t) = map_option (others user) (db w t)"
proof
  let ?q = "Update ''tasks'' [(''completed'', Bool (\<not> c))] [(''id'', i)]"
  from assms(2) have m: "mutates_own user (db w) ?q" by simp
  show "page_inv user (toggleTask i c w)"
    unfolding toggleTask_def
    by (intro page_inv_wait page_inv_perform assms(1) m) simp
  show "map_option (others user) (db (toggleTask i c w) t) = map_option (others user) (db w t)"
    unfolding toggleTask_def using others_perform [OF m] by simp
qed

lemma saveEdit_idle:
  assumes "\<not> (\<exists>i t. editingId (ui w) = Some i \<and> editingType (ui w) = Some t \<and> i \<noteq> [] \<and> t \<noteq> [])"
  shows "saveEdit w = w"
  using assms
  by (cases "editingId (ui w)"; cases "editingType (ui w)"; simp add: saveEdit_def)

lemma saveEdit_keeps:
  assumes "page_inv user w"
  shows "page_inv user (saveEdit w) \<and>
        map_option (others user) (db (saveEdit w) t) = map_option (others user) (db w t)"
proof (cases "\<exists>i t. editingId (ui w) = Some i \<and> editingType (ui w) = Some t \<and> i \<noteq> [] \<and> t \<noteq> []")
    case False
    with assms show ?thesis by (simp add: saveEdit_idle)
  next
    case True
    then obtain i k where c: "editingId (ui w) = Some i" "editingType (ui w) = Some k"
      "i \<noteq> []" "k \<noteq> []"
      by blast
    from assms c have own: "own_id user (db w) k i" by (simp add: page_inv_def)
    show ?thesis
    proof (cases "saveEdit_request k i (editValue (ui w))")
      case None
      with assms show ?thesis
        by (simp add: saveEdit_active [OF c] page_inv_fetchData page_inv_cancelEdit page_inv_toast)
    next
      case (Some q)
      from saveEdit_request_cases(2) [OF Some] own have m: "mutates_own user (db w) q"
        by auto
      have p: "page_inv user (perform q w)" by (rule page_inv_perform [OF assms m])
      from p others_perform [OF m, of t] Some show ?thesis
        by (simp add: saveEdit_active [OF c] page_inv_fetchData page_inv_cancelEdit page_inv_toast
              del: perform_simps)
    qed
  qed

lemma deleteItem_keeps:
  assumes "page_inv user w" "own_id user (db w) k i"
  shows "page_inv user (deleteItem i k w) \<and>
        map_option (others user) (db (deleteItem i k w) t) = map_option (others user) (db w t)"
proof (cases "deleteItem_request k i")
    case None
    with assms show ?thesis
      by (simp add: deleteItem_unfold page_inv_fetchData page_inv_toast)
  next
    case (Some q)
    from deleteItem_request_cases(2) [OF Some] assms(2) have m: "mutates_own user (db w) q"
      by auto
    have p: "page_inv user (perform q w)" by (rule page_inv_perform [OF assms(1) m])
    from p others_perform [OF m, of t] Some show ?thesis
      by (simp add: deleteItem_unfold page_inv_fetchData page_inv_toast del: perform_simps)
  qed

subsection \<open>Every step of the page\<close>

lemma act_keeps:
  assumes "page_inv user w"
  shows "page_inv user (act w a) \<and>
         map_option (others user) (db (act w a) t) = map_option (others user) (db w t)"
proof (cases a)
  case Load
  with assms show ?thesis by (simp add: page_inv_call)
next
  case (Check i)
  show ?thesis
  proof (cases "shown ''tasks'' i w")
    case None
    with assms show ?thesis
      unfolding Check by (simp add: click_checkbox_def shown_def panel_def)
  next
    case (Some r)
    from shown_own [OF assms Some] Some toggleTask_keeps [OF assms, of i _ t] show ?thesis
      unfolding Check by (simp add: click_checkbox_def shown_def panel_def del: toggleTask_simps)
  qed
next
  case (Edit k i)
  show ?thesis
  proof (cases "shown k i w")
    case None
    with assms show ?thesis unfolding Edit by (simp add: click_edit_def)
  next
    case (Some r)
    from shown_own [OF assms Some] Some assms show ?thesis
      unfolding Edit by (simp add: click_edit_def page_inv_startEdit)
  qed
next
  case (Input v)
  with assms show ?thesis by (simp add: change_input_def page_inv_editValue)
next
  case Save
  with assms saveEdit_keeps [OF assms, of t] show ?thesis by (simp add: click_save_def)
next
  case Cancel
  with assms show ?thesis by (simp add: click_cancel_def page_inv_cancelEdit)
next
  case (Remove k i)
  show ?thesis
  proof (cases "shown k i w")
    case None
    with assms show ?thesis unfolding Remove by (simp add: click_delete_def)
  next
    case (Some r)
    from shown_own [OF assms Some] Some assms deleteItem_keeps [OF assms, of k i t] show ?thesis
      unfolding Remove by (simp add: click_delete_def)
  qed
next
  case (Deliver n)
  with assms show ?thesis by (simp add: page_inv_deliver)
qed

lemma browse_keeps:
  assumes "page_inv user w"
  shows "page_inv user (browse w acts) \<and>
         map_option (others user) (db (browse w acts) t) = map_option (others user) (db w t)"
  using assms unfolding browse_def
proof (induction acts arbitrary: w)
  case Nil
  then show ?case by simp
next
  case (Cons a acts)
  from act_keeps [OF Cons.prems, of a t] Cons.IH [of "act w a"] show ?case by simp
qed

lemma page_inv_opened: "owner_by_id d \<Longrightarrow> page_inv user (opened d user failing)"
  by (simp add: page_inv_def opened_def rows_own_def)



lemma owner_by_id_example: "owner_by_id example_store"
  unfolding owner_by_id_def example_store_def
  by (auto simp: task_row_def note_row_def field_def split: if_splits)


lemma loaded_page_toggles_own_task:
  "db (browse (opened example_store (Some ''alice'') (\<lambda>rq. False))
         [Load, Deliver 0, Deliver 0, Check ''t1'']) ''tasks'' =
   Some [task_row ''t1'' ''alice'' True, task_row ''t2'' ''bob'' False]"
  by (simp add: browse_def opened_def deliver_def fetchData_call_def wait_def
        fetchData_user.simps(2) Let_def respond_def perform_def fetchData_land_def
        setTasks_def setEvents_def setNotes_def setHealth_def limit_def order_by_def
        click_checkbox_def toggleTask_def
        example_store_def task_row_def note_row_def field_def matches_def cong: if_cong)


end
